theory Spec2Isabelle
  imports Main "HOL-Library.AList" "HOL-Library.Char_ord" "HOL-Library.List_Lexorder"
begin

section \<open>Credential resolver (conftest.py)\<close>

text \<open>
  Python strings are modelled as \<^typ>\<open>string\<close>. The process environment
  \<^verbatim>\<open>os.environ\<close> is an association list: the order of the list is the order in
  which \<^verbatim>\<open>for key in os.environ\<close> enumerates the keys, and \<^verbatim>\<open>os.getenv\<close> is
  the lookup. Python dictionaries that the function builds are association lists
  updated with \<^const>\<open>AList.update\<close>, which replaces the value of a key that is
  already present and appends a new key at the end, as a \<^verbatim>\<open>dict\<close> does.
\<close>

type_synonym environ = "(string \<times> string) list"
type_synonym placeholders = "(string \<times> string) list"
type_synonym credentials = "(string \<times> placeholders) list"

datatype py_error =
  IndexError | ImportError | RuntimeError | ValueError |
  OSError | FileNotFoundError | NotADirectoryError | PermissionError

subsection \<open>String operations of the Python library\<close>

text \<open>\<^verbatim>\<open>s.endswith(suf)\<close>\<close>

definition endswith :: "string \<Rightarrow> string \<Rightarrow> bool" where
  "endswith s suf = (length suf \<le> length s \<and> drop (length s - length suf) s = suf)"

text \<open>
  \<^verbatim>\<open>s.rsplit('_', 1)\<close>: at most one split, at the last underscore; a string with
  no underscore comes back whole.
\<close>

definition rsplit1 :: "string \<Rightarrow> string list" where
  "rsplit1 s =
     (if CHR ''_'' \<in> set s
      then [rev (tl (dropWhile (\<lambda>c. c \<noteq> CHR ''_'') (rev s))),
            rev (takeWhile (\<lambda>c. c \<noteq> CHR ''_'') (rev s))]
      else [s])"

text \<open>\<^verbatim>\<open>xs[0]\<close>, which raises \<^verbatim>\<open>IndexError\<close> on an empty list.\<close>

definition index0 :: "'a list \<Rightarrow> py_error + 'a" where
  "index0 xs = (case xs of [] \<Rightarrow> Inl IndexError | x # _ \<Rightarrow> Inr x)"

text \<open>
  \<^verbatim>\<open>s.lower()\<close>. On a string of ASCII characters it changes the letters \<^verbatim>\<open>A\<close> to
  \<^verbatim>\<open>Z\<close> and nothing else: an upper-case letter has bit 5 clear, and setting it adds
  32, which is the distance to the lower-case letter. On a string with a character
  outside ASCII the result is left unspecified.
\<close>

definition lower_char :: "char \<Rightarrow> char" where
  "lower_char c =
     (if CHR ''A'' \<le> c \<and> c \<le> CHR ''Z''
      then Char (digit0 c) (digit1 c) (digit2 c) (digit3 c) (digit4 c) True (digit6 c) (digit7 c)
      else c)"

definition is_ascii :: "char \<Rightarrow> bool" where
  "is_ascii c = (\<not> digit7 c)"

definition lower :: "string \<Rightarrow> string" where
  "lower s = (if list_all is_ascii s then map lower_char s else undefined s)"

subsection \<open>Environment and the static table\<close>

definition getenv :: "environ \<Rightarrow> string \<Rightarrow> string option" where
  "getenv env k = map_of env k"

text \<open>
  Python truthiness of an optional string: \<^verbatim>\<open>not v\<close> holds for \<^verbatim>\<open>None\<close> and for
  the empty string; \<^verbatim>\<open>a or b\<close> is \<^verbatim>\<open>a\<close> when \<^verbatim>\<open>a\<close> is truthy and \<^verbatim>\<open>b\<close> otherwise.
\<close>

definition falsy :: "string option \<Rightarrow> bool" where
  "falsy v = (case v of None \<Rightarrow> True | Some s \<Rightarrow> s = [])"

definition py_or :: "string option \<Rightarrow> string option \<Rightarrow> string option" where
  "py_or a b = (if falsy a then b else a)"

definition DOMAIN_MAP :: "string \<Rightarrow> string option" where
  "DOMAIN_MAP = map_of
     [(''GITHUB'', ''https://*.github.com''),
      (''GITLAB'', ''https://*.gitlab.com''),
      (''GMAIL'', ''https://*.google.com''),
      (''GOOGLE'', ''https://*.google.com''),
      (''BITBUCKET'', ''https://*.bitbucket.org''),
      (''AZURE'', ''https://*.azure.com''),
      (''AWS'', ''https://*.aws.amazon.com'')]"

subsection \<open>\<^verbatim>\<open>build_sensitive_data\<close>\<close>

text \<open>
  One iteration of the \<^verbatim>\<open>for key in os.environ\<close> loop. The state is the pair of
  \<^verbatim>\<open>credentials\<close> and \<^verbatim>\<open>processed_prefixes\<close>; every \<^verbatim>\<open>continue\<close> returns the
  state as it is at that point.
\<close>

definition loop_body ::
  "environ \<Rightarrow> credentials \<times> string set \<Rightarrow> string \<Rightarrow> py_error + credentials \<times> string set"
where
  "loop_body env st key =
     (case st of (credentials, processed_prefixes) \<Rightarrow>
        if \<not> (endswith key ''_USER'' \<or> endswith key ''_EMAIL'')
        then Inr (credentials, processed_prefixes)
        else
          (case index0 (rsplit1 key) of
             Inl e \<Rightarrow> Inl e
           | Inr prefix \<Rightarrow>
               if prefix \<in> processed_prefixes
               then Inr (credentials, processed_prefixes)
               else
                 (let processed_prefixes = insert prefix processed_prefixes;
                      user_val = getenv env key
                  in if falsy user_val then Inr (credentials, processed_prefixes)
                     else
                       (let pass_key = prefix @ ''_PASS'';
                            pass_val = getenv env pass_key
                        in if falsy pass_val then Inr (credentials, processed_prefixes)
                           else
                             (let domain_key = prefix @ ''_DOMAIN'';
                                  domain = py_or (getenv env domain_key) (DOMAIN_MAP prefix)
                              in if falsy domain then Inr (credentials, processed_prefixes)
                                 else
                                   (let prefix_lower = lower prefix;
                                        placeholder_user = prefix_lower @ ''_user'';
                                        placeholder_pass = prefix_lower @ ''_pass''
                                    in Inr
                                         (AList.update (the domain)
                                            (AList.update placeholder_pass (the pass_val)
                                               (AList.update placeholder_user (the user_val) []))
                                            credentials,
                                          processed_prefixes)))))))"

text \<open>The loop over the keys; an error of an iteration ends the loop.\<close>

fun loop :: "environ \<Rightarrow> string list \<Rightarrow> credentials \<times> string set \<Rightarrow> py_error + credentials \<times> string set"
where
  "loop env [] st = Inr st"
| "loop env (key # keys) st =
     (case loop_body env st key of Inl e \<Rightarrow> Inl e | Inr st' \<Rightarrow> loop env keys st')"

text \<open>
  \<open>build_over env keys\<close> is the function body with the loop run over the list \<open>keys\<close>,
  every lookup still made in \<open>env\<close>; the function itself enumerates the keys of the
  environment. Comparing the two says what a key contributes to the result.
\<close>

definition build_over :: "environ \<Rightarrow> string list \<Rightarrow> py_error + credentials" where
  "build_over env keys = map_sum id fst (loop env keys ([], {}))"

definition build_sensitive_data :: "environ \<Rightarrow> py_error + credentials" where
  "build_sensitive_data env = build_over env (map fst env)"

subsection \<open>Notions used to state the properties of the loop\<close>

text \<open>
  A key is an identity key when the loop does not skip it at its first test; its prefix
  is the first element of the split. \<open>resolved_domain\<close> is the right-hand side of the
  assignment to \<^verbatim>\<open>domain\<close>, \<open>entry_of\<close> the pair that an iteration stores for a key
  whose prefix was not processed before, and \<open>step\<close> the iteration written with them;
  \<open>loop_body_step\<close> below proves that \<open>step\<close> is \<open>loop_body\<close>.
\<close>

definition is_identity_key :: "string \<Rightarrow> bool" where
  "is_identity_key key = (endswith key ''_USER'' \<or> endswith key ''_EMAIL'')"

definition key_prefix :: "string \<Rightarrow> string" where
  "key_prefix key = hd (rsplit1 key)"

definition resolved_domain :: "environ \<Rightarrow> string \<Rightarrow> string option" where
  "resolved_domain env prefix = py_or (getenv env (prefix @ ''_DOMAIN'')) (DOMAIN_MAP prefix)"

definition entry_of :: "environ \<Rightarrow> string \<Rightarrow> (string \<times> placeholders) option" where
  "entry_of env key =
     (let prefix = key_prefix key;
          user_val = getenv env key;
          pass_val = getenv env (prefix @ ''_PASS'');
          domain = resolved_domain env prefix
      in if falsy user_val \<or> falsy pass_val \<or> falsy domain then None
         else Some (the domain,
                    [(lower prefix @ ''_user'', the user_val),
                     (lower prefix @ ''_pass'', the pass_val)]))"

definition step :: "environ \<Rightarrow> credentials \<times> string set \<Rightarrow> string \<Rightarrow> credentials \<times> string set" where
  "step env st key =
     (if is_identity_key key \<and> key_prefix key \<notin> snd st
      then (case entry_of env key of
              None \<Rightarrow> fst st
            | Some (d, sub) \<Rightarrow> AList.update d sub (fst st),
            insert (key_prefix key) (snd st))
      else st)"

definition has_prefix :: "string \<Rightarrow> string \<Rightarrow> bool" where
  "has_prefix P k = (is_identity_key k \<and> key_prefix k = P)"

section \<open>Profile store (conftest.py, setup_profile.py)\<close>

subsection \<open>Paths of \<^verbatim>\<open>pathlib\<close>\<close>

text \<open>
  A POSIX path of \<^verbatim>\<open>pathlib\<close> is its root (\<^verbatim>\<open>''\<close>, \<^verbatim>\<open>'/'\<close> or \<^verbatim>\<open>'//'\<close>) and the list
  of its components after the root.
\<close>

record path =
  root :: string
  parts :: "string list"

text \<open>\<^verbatim>\<open>s.split(sep)\<close> for a separator of one character.\<close>

fun split_sep :: "char \<Rightarrow> string \<Rightarrow> string list" where
  "split_sep c [] = [[]]"
| "split_sep c (x # xs) =
     (if x = c then [] # split_sep c xs
      else (case split_sep c xs of w # ws \<Rightarrow> (x # w) # ws | [] \<Rightarrow> [[x]]))"

text \<open>
  \<^verbatim>\<open>splitroot\<close> of the POSIX flavour: exactly two leading slashes are kept as the
  root \<^verbatim>\<open>'//'\<close>, any other number of leading slashes is the root \<^verbatim>\<open>'/'\<close>.
\<close>

definition splitroot :: "string \<Rightarrow> string \<times> string" where
  "splitroot part =
     (if part \<noteq> [] \<and> hd part = CHR ''/''
      then (let stripped_part = dropWhile (\<lambda>c. c = CHR ''/'') part
            in (if length part - length stripped_part = 2 then ''//'' else ''/'', stripped_part))
      else ([], part))"

text \<open>
  Parsing one string argument: the components are the pieces between slashes, without
  the empty ones and without \<^verbatim>\<open>'.'\<close>.
\<close>

definition parse_parts :: "string \<Rightarrow> path" where
  "parse_parts s =
     (case splitroot s of
        (r, rel) \<Rightarrow> \<lparr>root = r, parts = filter (\<lambda>x. x \<noteq> [] \<and> x \<noteq> ''.'') (split_sep CHR ''/'' rel)\<rparr>)"

text \<open>\<^verbatim>\<open>p / s\<close>: an argument with a root replaces the path, any other one extends it.\<close>

definition truediv :: "path \<Rightarrow> string \<Rightarrow> path" where
  "truediv p s =
     (let q = parse_parts s
      in if root q \<noteq> [] then q else \<lparr>root = root p, parts = parts p @ parts q\<rparr>)"

text \<open>\<^verbatim>\<open>p.name\<close>: the last component, the empty string when there is none.\<close>

definition path_name :: "path \<Rightarrow> string" where
  "path_name p = (if parts p = [] then [] else last (parts p))"

text \<open>\<^verbatim>\<open>sep.join(xs)\<close> and \<^verbatim>\<open>str(p)\<close>.\<close>

fun join :: "string \<Rightarrow> string list \<Rightarrow> string" where
  "join sep [] = []"
| "join sep [x] = x"
| "join sep (x # y # ys) = x @ sep @ join sep (y # ys)"

definition path_str :: "path \<Rightarrow> string" where
  "path_str p = (if root p = [] \<and> parts p = [] then ''.'' else root p @ join ''/'' (parts p))"

text \<open>
  The key by which two paths are compared: the root, when there is one, followed by
  the components, in the lexicographic order of lists of strings.
\<close>

definition cparts :: "path \<Rightarrow> string list" where
  "cparts p = (if root p = [] then [] else [root p]) @ parts p"

subsection \<open>\<^verbatim>\<open>Path.home()\<close> and \<^verbatim>\<open>get_profile_path\<close>\<close>

text \<open>
  \<^verbatim>\<open>os.path.expanduser('~')\<close> reads the process state: the variable \<^verbatim>\<open>HOME\<close> when
  the environment has it, and otherwise the home directory of the user in the user
  database (\<open>pw_dir\<close>, which is \<open>None\<close> when the database has no entry for the user, the
  \<^verbatim>\<open>KeyError\<close> of \<^verbatim>\<open>pwd.getpwuid\<close>). Trailing slashes are stripped, and an empty result
  becomes \<^verbatim>\<open>'/'\<close>. \<^verbatim>\<open>Path.home()\<close> raises \<^verbatim>\<open>RuntimeError\<close> when the result still starts
  with a tilde.
\<close>

definition rstrip_sep :: "string \<Rightarrow> string" where
  "rstrip_sep s = rev (dropWhile (\<lambda>c. c = CHR ''/'') (rev s))"

definition expanduser_tilde :: "environ \<Rightarrow> string option \<Rightarrow> string" where
  "expanduser_tilde env pw_dir =
     (case (case getenv env ''HOME'' of None \<Rightarrow> pw_dir | Some h \<Rightarrow> Some h) of
        None \<Rightarrow> ''~''
      | Some userhome \<Rightarrow> (if rstrip_sep userhome = [] then ''/'' else rstrip_sep userhome))"

definition Path_home :: "environ \<Rightarrow> string option \<Rightarrow> py_error + path" where
  "Path_home env pw_dir =
     (let homedir = expanduser_tilde env pw_dir
      in if take 1 homedir = ''~'' then Inl RuntimeError else Inr (parse_parts homedir))"

text \<open>
  \<open>get_profile_path home profile_name\<close> is the expression of the function for the value
  \<open>home\<close> of \<^verbatim>\<open>Path.home()\<close>; \<open>get_profile_path_at\<close> is the call in a process state.
\<close>

definition get_profile_path :: "path \<Rightarrow> string \<Rightarrow> path" where
  "get_profile_path home profile_name = truediv (truediv home ''.browser-use-profiles'') profile_name"

definition get_profile_path_at :: "environ \<Rightarrow> string option \<Rightarrow> string \<Rightarrow> py_error + path" where
  "get_profile_path_at env pw_dir profile_name =
     (case Path_home env pw_dir of
        Inl e \<Rightarrow> Inl e
      | Inr home \<Rightarrow> Inr (get_profile_path home profile_name))"

subsection \<open>The file system\<close>

text \<open>
  The file system is a tree: a node is a regular file, a directory with its entries
  (in the order in which \<^verbatim>\<open>os.listdir\<close> yields them), or a directory that the process
  may neither read nor search. There are no symbolic links, and the working directory
  is the top of the tree.

  \<open>stat_from up n xs\<close> resolves the components \<open>xs\<close> from the node \<open>n\<close>, whose
  ancestors are \<open>up\<close>, nearest first, the way the operating system does for
  \<^verbatim>\<open>os.stat\<close>: \<^verbatim>\<open>..\<close> goes to the parent (the top is its own parent), a component
  under a regular file is \<^verbatim>\<open>ENOTDIR\<close>, a component under an inaccessible directory is
  \<^verbatim>\<open>EACCES\<close>, a component longer than \<^verbatim>\<open>NAME_MAX\<close> is \<^verbatim>\<open>ENAMETOOLONG\<close>, and a
  missing entry is \<^verbatim>\<open>ENOENT\<close>.
\<close>

datatype node = File | Dir "(string \<times> node) list" | NoAccess

definition NAME_MAX :: nat where
  "NAME_MAX = 255"

definition PATH_MAX :: nat where
  "PATH_MAX = 4096"

fun stat_from :: "node list \<Rightarrow> node \<Rightarrow> string list \<Rightarrow> py_error + node" where
  "stat_from up n [] = Inr n"
| "stat_from up File (x # xs) = Inl NotADirectoryError"
| "stat_from up NoAccess (x # xs) = Inl PermissionError"
| "stat_from up (Dir es) (x # xs) =
     (if x = ''..''
      then (case up of [] \<Rightarrow> stat_from [] (Dir es) xs | a # as \<Rightarrow> stat_from as a xs)
      else if NAME_MAX < length x then Inl OSError
      else (case map_of es x of
              None \<Rightarrow> Inl FileNotFoundError
            | Some n \<Rightarrow> stat_from (Dir es # up) n xs))"

text \<open>
  \<^verbatim>\<open>p.stat()\<close>: a path with a null character is refused with \<^verbatim>\<open>ValueError\<close>, one
  of \<^verbatim>\<open>PATH_MAX\<close> bytes or more with \<^verbatim>\<open>ENAMETOOLONG\<close>.
\<close>

definition path_stat :: "node \<Rightarrow> path \<Rightarrow> py_error + node" where
  "path_stat fs p =
     (if CHR 0x00 \<in> set (path_str p) then Inl ValueError
      else if PATH_MAX \<le> length (path_str p) then Inl OSError
      else stat_from [] fs (parts p))"

text \<open>
  \<^verbatim>\<open>p.exists()\<close> and \<^verbatim>\<open>p.is_dir()\<close> answer \<^verbatim>\<open>False\<close> on \<^verbatim>\<open>ValueError\<close> and on the
  errors that \<^verbatim>\<open>_ignore_error\<close> accepts (\<^verbatim>\<open>ENOENT\<close>, \<^verbatim>\<open>ENOTDIR\<close>); they raise every
  other error again.
\<close>

definition ignore_error :: "py_error \<Rightarrow> bool" where
  "ignore_error e = (e = FileNotFoundError \<or> e = NotADirectoryError)"

definition path_exists :: "node \<Rightarrow> path \<Rightarrow> py_error + bool" where
  "path_exists fs p =
     (case path_stat fs p of
        Inr n \<Rightarrow> Inr True
      | Inl e \<Rightarrow> if e = ValueError \<or> ignore_error e then Inr False else Inl e)"

definition path_is_dir :: "node \<Rightarrow> path \<Rightarrow> py_error + bool" where
  "path_is_dir fs p =
     (case path_stat fs p of
        Inr n \<Rightarrow> Inr (n \<noteq> File)
      | Inl e \<Rightarrow> if e = ValueError \<or> ignore_error e then Inr False else Inl e)"

text \<open>\<^verbatim>\<open>p.iterdir()\<close>: the children of a readable directory; it raises on anything else.\<close>

definition path_iterdir :: "node \<Rightarrow> path \<Rightarrow> py_error + path list" where
  "path_iterdir fs p =
     (case path_stat fs p of
        Inl e \<Rightarrow> Inl e
      | Inr File \<Rightarrow> Inl NotADirectoryError
      | Inr NoAccess \<Rightarrow> Inl PermissionError
      | Inr (Dir es) \<Rightarrow> Inr (map (\<lambda>e. p\<lparr>parts := parts p @ [fst e]\<rparr>) es))"


subsection \<open>\<^verbatim>\<open>browser_with_profile\<close>\<close>

text \<open>
  The fixture up to its \<^verbatim>\<open>yield\<close>: the import of \<^verbatim>\<open>browser_use\<close> may fail, an
  error of \<^verbatim>\<open>exists\<close> ends the fixture, \<^verbatim>\<open>pytest.skip\<close> ends it with its message,
  and otherwise a browser is made with the two options. The argument \<open>home\<close> is the
  value of \<^verbatim>\<open>Path.home()\<close> at the call.
\<close>

record browser_options =
  headless :: bool
  user_data_dir :: string

datatype fixture_result = Skipped string | Launched browser_options

definition browser_with_profile :: "bool \<Rightarrow> node \<Rightarrow> path \<Rightarrow> string \<Rightarrow> py_error + fixture_result" where
  "browser_with_profile browser_use_installed fs home profile_name =
     (if \<not> browser_use_installed then Inl ImportError
      else
        (let profile_path = get_profile_path home profile_name
         in case path_exists fs profile_path of
              Inl e \<Rightarrow> Inl e
            | Inr found \<Rightarrow>
                if \<not> found
                then Inr (Skipped (''Profile '' @ [CHR 0x27] @ profile_name @ [CHR 0x27] @
                                    '' not found. Run setup_profile.py first.''))
                else Inr (Launched \<lparr>headless = False, user_data_dir = path_str profile_path\<rparr>)))"

subsection \<open>\<^verbatim>\<open>list_profiles\<close>\<close>

text \<open>
  \<^verbatim>\<open>PROFILES_DIR\<close> is computed once, when the module is loaded, from the value of
  \<^verbatim>\<open>Path.home()\<close> at that moment.
\<close>

definition PROFILES_DIR :: "path \<Rightarrow> path" where
  "PROFILES_DIR home = truediv home ''.browser-use-profiles''"

text \<open>\<^verbatim>\<open>[p for p in ps if p.is_dir()]\<close>, where \<^verbatim>\<open>is_dir\<close> may raise.\<close>

fun filter_is_dir :: "node \<Rightarrow> path list \<Rightarrow> py_error + path list" where
  "filter_is_dir fs [] = Inr []"
| "filter_is_dir fs (p # ps) =
     (case path_is_dir fs p of
        Inl e \<Rightarrow> Inl e
      | Inr d \<Rightarrow>
          (case filter_is_dir fs ps of
             Inl e \<Rightarrow> Inl e
           | Inr rest \<Rightarrow> Inr (if d then p # rest else rest)))"

text \<open>
  The function prints and returns nothing: its result here is the list of the strings
  given to \<^verbatim>\<open>print\<close>, in order. \<^verbatim>\<open>sorted\<close> is a stable sort of the paths.
\<close>

definition list_profiles :: "node \<Rightarrow> path \<Rightarrow> py_error + string list" where
  "list_profiles fs home =
     (case path_exists fs (PROFILES_DIR home) of
        Inl e \<Rightarrow> Inl e
      | Inr found \<Rightarrow>
          if \<not> found then Inr [''No profiles directory found.'']
          else
            (case path_iterdir fs (PROFILES_DIR home) of
               Inl e \<Rightarrow> Inl e
             | Inr ps \<Rightarrow>
                 (case filter_is_dir fs ps of
                    Inl e \<Rightarrow> Inl e
                  | Inr profiles \<Rightarrow>
                      if profiles = [] then Inr [''No profiles found.'']
                      else Inr ((''Profiles in '' @ path_str (PROFILES_DIR home) @ '':'' @
                                 [CHR 0x0A]) #
                                map (\<lambda>profile. ''  - '' @ path_name profile)
                                  (sort_key cparts profiles)))))"

section \<open>Properties of the credential resolver\<close>

subsection \<open>Strings\<close>

lemma endswith_append [simp]: "endswith (p @ suf) suf"
  by (simp add: endswith_def)

lemma endswith_conv: "endswith s suf \<longleftrightarrow> (\<exists>p. s = p @ suf)"
proof
  assume "endswith s suf"
  then have "s = take (length s - length suf) s @ suf"
    by (metis append_take_drop_id endswith_def)
  then show "\<exists>p. s = p @ suf" ..
next
  assume "\<exists>p. s = p @ suf"
  then show "endswith s suf" by (auto simp: endswith_def)
qed

lemma rsplit1_USER [simp]: "rsplit1 (p @ ''_USER'') = [p, ''USER'']"
  by (simp add: rsplit1_def)

lemma rsplit1_EMAIL [simp]: "rsplit1 (p @ ''_EMAIL'') = [p, ''EMAIL'']"
  by (simp add: rsplit1_def)

lemma rsplit1_nonempty: "rsplit1 s \<noteq> []"
  by (simp add: rsplit1_def)

lemma index0_rsplit1: "index0 (rsplit1 s) = Inr (key_prefix s)"
  by (simp add: rsplit1_def index0_def key_prefix_def)

lemma key_prefix_USER [simp]: "key_prefix (p @ ''_USER'') = p"
  by (simp add: key_prefix_def)

lemma key_prefix_EMAIL [simp]: "key_prefix (p @ ''_EMAIL'') = p"
  by (simp add: key_prefix_def)

lemma is_identity_key_cases:
  "is_identity_key k \<longleftrightarrow> k = key_prefix k @ ''_USER'' \<or> k = key_prefix k @ ''_EMAIL''"
  by (auto simp: is_identity_key_def endswith_conv)

lemma update_literal:
  "a \<noteq> b \<Longrightarrow> AList.update b y (AList.update a x []) = [(a, x), (b, y)]"
  by simp

lemma placeholder_keys_differ: "q @ ''_user'' \<noteq> q @ ''_pass''"
  by simp

lemma lower_char_upper:
  "CHR ''A'' \<le> c \<Longrightarrow> c \<le> CHR ''Z'' \<Longrightarrow> of_char (lower_char c) = (of_char c + 32 :: nat)"
  by (cases c) (simp add: lower_char_def)

lemma lower_table_keys:
  "lower ''GITHUB'' = ''github''" "lower ''GITLAB'' = ''gitlab''" "lower ''GMAIL'' = ''gmail''"
  "lower ''GOOGLE'' = ''google''" "lower ''BITBUCKET'' = ''bitbucket''"
  "lower ''AZURE'' = ''azure''" "lower ''AWS'' = ''aws''"
  by (simp_all add: lower_def lower_char_def is_ascii_def)

subsection \<open>The loop as a fold of \<open>step\<close>\<close>

lemma loop_body_step: "loop_body env st key = Inr (step env st key)"
  by (cases st)
     (auto simp: loop_body_def step_def is_identity_key_def index0_rsplit1 entry_of_def
        resolved_domain_def Let_def)

lemma loop_foldl: "loop env keys st = Inr (foldl (step env) st keys)"
  by (induction keys arbitrary: st) (simp_all add: loop_body_step)

lemma build_over_foldl: "build_over env keys = Inr (fst (foldl (step env) ([], {}) keys))"
  by (simp add: build_over_def loop_foldl)

lemma step_seen: "snd (step env st k) = (if is_identity_key k then insert (key_prefix k) (snd st) else snd st)"
  by (auto simp: step_def)

lemma foldl_step_seen:
  "snd (foldl (step env) st ks) = snd st \<union> key_prefix ` {k \<in> set ks. is_identity_key k}"
  by (induction ks arbitrary: st) (auto simp: step_seen)

lemma step_skip: "is_identity_key k \<longrightarrow> key_prefix k \<in> snd st \<Longrightarrow> step env st k = st"
  by (auto simp: step_def)

lemma foldl_step_skip:
  "\<forall>k\<in>set ks. is_identity_key k \<longrightarrow> key_prefix k \<in> snd st \<Longrightarrow> foldl (step env) st ks = st"
  by (induction ks arbitrary: st) (simp_all add: step_skip)

lemma foldl_step_drop_prefix:
  assumes "P \<in> seen \<or> (\<forall>k. List.find (has_prefix P) ks = Some k \<longrightarrow> entry_of env k = None)"
    and "seen - {P} = seen' - {P}"
  shows "fst (foldl (step env) (c, seen) ks) =
         fst (foldl (step env) (c, seen') (filter (\<lambda>k. \<not> has_prefix P k) ks))"
  using assms
proof (induction ks arbitrary: c seen seen')
  case Nil
  then show ?case by simp
next
  case (Cons k ks)
  show ?case
  proof (cases "has_prefix P k")
    case True
    then have st: "step env (c, seen) k = (c, insert P seen)"
      using Cons.prems(1) by (auto simp: step_def has_prefix_def insert_absorb)
    have "fst (foldl (step env) (c, insert P seen) ks) =
          fst (foldl (step env) (c, seen') (filter (\<lambda>k. \<not> has_prefix P k) ks))"
      by (rule Cons.IH) (use Cons.prems(2) in auto)
    with True st show ?thesis by simp
  next
    case False
    have mem: "key_prefix k \<in> seen \<longleftrightarrow> key_prefix k \<in> seen'" if "is_identity_key k"
      using that False Cons.prems(2) by (auto simp: has_prefix_def)
    have eq: "fst (step env (c, seen) k) = fst (step env (c, seen') k)"
      using mem by (cases "is_identity_key k") (auto simp: step_def split: option.splits)
    define c1 where "c1 = fst (step env (c, seen) k)"
    have s1: "step env (c, seen) k = (c1, snd (step env (c, seen) k))"
      and s2: "step env (c, seen') k = (c1, snd (step env (c, seen') k))"
      using eq by (simp_all add: c1_def prod_eq_iff)
    have "fst (foldl (step env) (c1, snd (step env (c, seen) k)) ks) =
          fst (foldl (step env) (c1, snd (step env (c, seen') k)) (filter (\<lambda>k. \<not> has_prefix P k) ks))"
    proof (rule Cons.IH)
      show "P \<in> snd (step env (c, seen) k) \<or>
            (\<forall>k. List.find (has_prefix P) ks = Some k \<longrightarrow> entry_of env k = None)"
        using Cons.prems(1) False by (auto simp: step_seen)
      show "snd (step env (c, seen) k) - {P} = snd (step env (c, seen') k) - {P}"
        using Cons.prems(2) by (auto simp: step_seen)
    qed
    with False s1 s2 show ?thesis by simp
  qed
qed

lemma foldl_step_filter_non_identity:
  "\<forall>k\<in>set ks. \<not> keep k \<longrightarrow> \<not> is_identity_key k \<Longrightarrow>
   foldl (step env) st (filter keep ks) = foldl (step env) st ks"
  by (induction ks arbitrary: st) (auto simp: step_def)

lemma map_of_step_other:
  "is_identity_key k \<and> key_prefix k \<notin> snd st \<longrightarrow> (\<forall>sub. entry_of env k \<noteq> Some (D, sub)) \<Longrightarrow>
   map_of (fst (step env st k)) D = map_of (fst st) D"
  by (auto simp: step_def update_conv' split: option.splits)

lemma map_of_foldl_step_other:
  "\<forall>k\<in>set ks. is_identity_key k \<and> key_prefix k \<notin> snd st \<longrightarrow> (\<forall>sub. entry_of env k \<noteq> Some (D, sub)) \<Longrightarrow>
   map_of (fst (foldl (step env) st ks)) D = map_of (fst st) D"
proof (induction ks arbitrary: st)
  case Nil
  then show ?case by simp
next
  case (Cons k ks)
  have "map_of (fst (foldl (step env) (step env st k) ks)) D = map_of (fst (step env st k)) D"
    by (rule Cons.IH) (use Cons.prems in \<open>auto simp: step_seen\<close>)
  also have "\<dots> = map_of (fst st) D"
    by (rule map_of_step_other) (use Cons.prems in auto)
  finally show ?case by simp
qed

lemma set_update_subset: "set (AList.update k v al) \<subseteq> insert (k, v) (set al)"
  by (induction al) auto

lemma step_entries:
  "(D, sub) \<in> set (fst (step env st k)) \<Longrightarrow>
   (D, sub) \<in> set (fst st) \<or> (is_identity_key k \<and> entry_of env k = Some (D, sub))"
  using set_update_subset by (fastforce simp: step_def split: if_splits option.splits)

lemma foldl_step_entries:
  "(D, sub) \<in> set (fst (foldl (step env) st ks)) \<Longrightarrow>
   (D, sub) \<in> set (fst st) \<or> (\<exists>k\<in>set ks. is_identity_key k \<and> entry_of env k = Some (D, sub))"
proof (induction ks arbitrary: st)
  case Nil
  then show ?case by simp
next
  case (Cons k ks)
  from Cons.IH [of "step env st k"] Cons.prems
  have "(D, sub) \<in> set (fst (step env st k)) \<or>
        (\<exists>k\<in>set ks. is_identity_key k \<and> entry_of env k = Some (D, sub))" by simp
  then show ?case using step_entries by fastforce
qed

subsection \<open>Entries and single iterations\<close>

lemma DOMAIN_MAP_nonempty: "DOMAIN_MAP P = Some D \<Longrightarrow> D \<noteq> []"
  unfolding DOMAIN_MAP_def by (drule map_of_SomeD) auto

lemma entry_of_Some:
  assumes "getenv env k = Some u" "u \<noteq> []"
    and "getenv env (key_prefix k @ ''_PASS'') = Some p" "p \<noteq> []"
    and "resolved_domain env (key_prefix k) = Some D" "D \<noteq> []"
  shows "entry_of env k =
         Some (D, [(lower (key_prefix k) @ ''_user'', u), (lower (key_prefix k) @ ''_pass'', p)])"
  using assms by (simp add: entry_of_def falsy_def Let_def)

lemma entry_of_SomeD:
  assumes "entry_of env k = Some (D, sub)"
  shows "\<exists>u p. getenv env k = Some u \<and> u \<noteq> [] \<and>
           getenv env (key_prefix k @ ''_PASS'') = Some p \<and> p \<noteq> [] \<and>
           resolved_domain env (key_prefix k) = Some D \<and> D \<noteq> [] \<and>
           sub = [(lower (key_prefix k) @ ''_user'', u), (lower (key_prefix k) @ ''_pass'', p)]"
  using assms by (auto simp: entry_of_def falsy_def Let_def split: if_splits option.splits)

lemma step_write:
  "is_identity_key k \<Longrightarrow> key_prefix k \<notin> seen \<Longrightarrow> entry_of env k = Some (D, sub) \<Longrightarrow>
   step env (c, seen) k = (AList.update D sub c, insert (key_prefix k) seen)"
  by (simp add: step_def)

lemma resolved_domain_truthy: "resolved_domain env P = Some D \<Longrightarrow> D \<noteq> []"
  by (auto simp: resolved_domain_def py_or_def falsy_def dest: DOMAIN_MAP_nonempty split: if_splits)

lemma build_entries:
  assumes "build_sensitive_data env = Inr c" and "map_of c D = Some sub"
  shows "\<exists>k\<in>set (map fst env). is_identity_key k \<and> entry_of env k = Some (D, sub)"
proof -
  have "(D, sub) \<in> set (fst (foldl (step env) ([], {}) (map fst env)))"
    using assms by (auto simp: build_sensitive_data_def build_over_foldl dest: map_of_SomeD)
  from foldl_step_entries [OF this] show ?thesis by simp
qed

lemma last_write:
  assumes id: "is_identity_key k"
    and first: "\<forall>k'\<in>set ks1. is_identity_key k' \<longrightarrow> key_prefix k' \<noteq> key_prefix k"
    and entry: "entry_of env k = Some (D, sub)"
    and later: "\<forall>k'\<in>set ks2. is_identity_key k' \<longrightarrow>
                  key_prefix k' \<in> key_prefix ` {x \<in> set (ks1 @ [k]). is_identity_key x} \<or>
                  resolved_domain env (key_prefix k') \<noteq> Some D"
  shows "map_of (fst (foldl (step env) ([], {}) (ks1 @ k # ks2))) D = Some sub"
proof -
  define st1 where "st1 = foldl (step env) ([], {}) ks1"
  have seen1: "snd st1 = key_prefix ` {x \<in> set ks1. is_identity_key x}"
    by (simp add: st1_def foldl_step_seen)
  then have "key_prefix k \<notin> snd st1" using first by auto
  then have st2: "step env st1 k = (AList.update D sub (fst st1), insert (key_prefix k) (snd st1))"
    using step_write [OF id _ entry, of "snd st1" "fst st1"] by simp
  define st2 where "st2 = step env st1 k"
  have seen2: "snd st2 = key_prefix ` {x \<in> set (ks1 @ [k]). is_identity_key x}"
    using id by (auto simp: st2_def st2 seen1)
  have "map_of (fst (foldl (step env) st2 ks2)) D = map_of (fst st2) D"
  proof (rule map_of_foldl_step_other, intro ballI impI allI)
    fix k' sub'
    assume k': "k' \<in> set ks2" and new: "is_identity_key k' \<and> key_prefix k' \<notin> snd st2"
    with later seen2 have "resolved_domain env (key_prefix k') \<noteq> Some D" by blast
    then show "entry_of env k' \<noteq> Some (D, sub')"
      using entry_of_SomeD [of env k' D sub'] by blast
  qed
  also have "\<dots> = Some sub" by (simp add: st2_def st2 update_conv')
  finally show ?thesis by (simp add: st1_def st2_def)
qed

lemma build_sensitive_data_foldl:
  "build_sensitive_data env = Inr (fst (foldl (step env) ([], {}) (map fst env)))"
  by (simp add: build_sensitive_data_def build_over_foldl)

lemma entry_of_no_pass: "falsy (getenv env (key_prefix k @ ''_PASS'')) \<Longrightarrow> entry_of env k = None"
  by (simp add: entry_of_def Let_def)

lemma entry_of_no_user: "falsy (getenv env k) \<Longrightarrow> entry_of env k = None"
  by (simp add: entry_of_def Let_def)

lemma entry_of_no_domain: "falsy (resolved_domain env (key_prefix k)) \<Longrightarrow> entry_of env k = None"
  by (simp add: entry_of_def Let_def)

lemma step_no_entry: "is_identity_key k \<longrightarrow> entry_of env k = None \<Longrightarrow> fst (step env st k) = fst st"
  by (auto simp: step_def)

lemma foldl_step_no_entry:
  "\<forall>k\<in>set ks. is_identity_key k \<longrightarrow> entry_of env k = None \<Longrightarrow>
   fst (foldl (step env) st ks) = fst st"
  by (induction ks arbitrary: st) (simp_all add: step_no_entry)

lemma build_drop_prefix:
  assumes "\<forall>k. List.find (has_prefix P) (map fst env) = Some k \<longrightarrow> entry_of env k = None"
  shows "build_sensitive_data env = build_over env (filter (\<lambda>k. \<not> has_prefix P k) (map fst env))"
  using foldl_step_drop_prefix [of P "{}" "map fst env" env "{}" "[]"] assms
  by (simp add: build_sensitive_data_foldl build_over_foldl)

lemma loop_body_no_entry:
  "is_identity_key k \<longrightarrow> entry_of env k = None \<Longrightarrow> \<exists>seen'. loop_body env (c, seen) k = Inr (c, seen')"
  by (auto simp: loop_body_step step_def)

lemma find_first_has_prefix:
  "\<forall>k\<in>set ks1. \<not> has_prefix P k \<Longrightarrow> has_prefix P k1 \<Longrightarrow>
   List.find (has_prefix P) (ks1 @ k1 # ks2) = Some k1"
  by (induction ks1) simp_all

lemma loop_body_mark_only:
  "is_identity_key k \<Longrightarrow> key_prefix k \<notin> seen \<Longrightarrow> entry_of env k = None \<Longrightarrow>
   loop_body env (c, seen) k = Inr (c, insert (key_prefix k) seen)"
  by (simp add: loop_body_step step_def)

lemma loop_body_seen:
  "is_identity_key k \<Longrightarrow> \<exists>c'. loop_body env (c, seen) k = Inr (c', insert (key_prefix k) seen)"
  by (auto simp: loop_body_step step_def insert_absorb)

lemma loop_body_skip:
  "is_identity_key k \<longrightarrow> key_prefix k \<in> seen \<Longrightarrow> loop_body env (c, seen) k = Inr (c, seen)"
  by (auto simp: loop_body_step step_def)

lemma build_first_form:
  assumes keys: "map fst env = ks1 @ k1 # ks2" and id: "is_identity_key k1"
  shows "build_sensitive_data env =
         build_over env (ks1 @ k1 # filter (\<lambda>k. \<not> has_prefix (key_prefix k1) k) ks2)"
proof -
  define st where "st = foldl (step env) ([], {}) (ks1 @ [k1])"
  have "key_prefix k1 \<in> snd st"
    using id by (simp add: st_def step_seen)
  then have "fst (foldl (step env) (fst st, snd st) ks2) =
      fst (foldl (step env) (fst st, snd st) (filter (\<lambda>k. \<not> has_prefix (key_prefix k1) k) ks2))"
    by (intro foldl_step_drop_prefix) simp_all
  then show ?thesis
    by (simp add: build_sensitive_data_foldl build_over_foldl keys st_def)
qed

lemma resolved_domain_override:
  "getenv env (P @ ''_DOMAIN'') = Some d \<Longrightarrow> d \<noteq> [] \<Longrightarrow> resolved_domain env P = Some d"
  by (simp add: resolved_domain_def py_or_def falsy_def)

lemma resolved_domain_fallback:
  "falsy (getenv env (P @ ''_DOMAIN'')) \<Longrightarrow> resolved_domain env P = DOMAIN_MAP P"
  by (simp add: resolved_domain_def py_or_def)

lemma getenv_filter:
  "getenv (filter (\<lambda>kv. fst kv \<noteq> a) env) x = (if x = a then None else getenv env x)"
  by (induction env) (auto simp: getenv_def)

lemma identity_key_not_DOMAIN: "is_identity_key k \<Longrightarrow> k \<noteq> P @ ''_DOMAIN''"
  by (auto simp: is_identity_key_def endswith_conv dest: arg_cong [where f = last])

lemma PASS_not_DOMAIN: "Q @ ''_PASS'' \<noteq> P @ ''_DOMAIN''"
  by (auto dest: arg_cong [where f = last])

lemma resolved_domain_filter:
  assumes "getenv env (P @ ''_DOMAIN'') = Some []"
  shows "resolved_domain (filter (\<lambda>kv. fst kv \<noteq> P @ ''_DOMAIN'') env) Q = resolved_domain env Q"
  using assms by (simp add: resolved_domain_def getenv_filter py_or_def falsy_def)

lemma entry_of_filter:
  assumes "getenv env (P @ ''_DOMAIN'') = Some []" and "is_identity_key k"
  shows "entry_of (filter (\<lambda>kv. fst kv \<noteq> P @ ''_DOMAIN'') env) k = entry_of env k"
  using assms
  by (simp add: entry_of_def resolved_domain_filter getenv_filter identity_key_not_DOMAIN
      PASS_not_DOMAIN)

lemma step_filter:
  assumes "getenv env (P @ ''_DOMAIN'') = Some []"
  shows "step (filter (\<lambda>kv. fst kv \<noteq> P @ ''_DOMAIN'') env) st k = step env st k"
  using assms by (simp add: step_def entry_of_filter)

lemma foldl_step_filter_env:
  assumes "getenv env (P @ ''_DOMAIN'') = Some []"
  shows "foldl (step (filter (\<lambda>kv. fst kv \<noteq> P @ ''_DOMAIN'') env)) st ks = foldl (step env) st ks"
  by (induction ks arbitrary: st) (simp_all add: step_filter [OF assms])

lemma build_filter_empty_DOMAIN:
  assumes "getenv env (P @ ''_DOMAIN'') = Some []"
  shows "build_sensitive_data (filter (\<lambda>kv. fst kv \<noteq> P @ ''_DOMAIN'') env) = build_sensitive_data env"
proof -
  have keys: "map fst (filter (\<lambda>kv. fst kv \<noteq> P @ ''_DOMAIN'') env) =
      filter (\<lambda>k. k \<noteq> P @ ''_DOMAIN'') (map fst env)"
    by (simp add: filter_map comp_def)
  have "foldl (step env) ([], {}) (filter (\<lambda>k. k \<noteq> P @ ''_DOMAIN'') (map fst env)) =
      foldl (step env) ([], {}) (map fst env)"
    by (rule foldl_step_filter_non_identity) (auto dest: identity_key_not_DOMAIN)
  then show ?thesis
    by (simp add: build_sensitive_data_foldl keys foldl_step_filter_env [OF assms])
qed

section \<open>Claims about the credential resolver\<close>

text \<open>
  C1. An environment holds \<^verbatim>\<open>FOO_USER=u\<close> and \<^verbatim>\<open>FOO_PASS=p\<close> with \<open>u\<close> and \<open>p\<close>
  non-empty, no \<^verbatim>\<open>FOO_DOMAIN\<close>, and no other key that ends in \<^verbatim>\<open>_USER\<close> or
  \<^verbatim>\<open>_EMAIL\<close>; \<open>FOO\<close> is a key of the static table, mapped to \<open>D\<close>. Then
  \<^verbatim>\<open>build_sensitive_data\<close> returns the dictionary with the single key \<open>D\<close>, whose value
  has the two placeholders \<^verbatim>\<open>foo_user\<close> and \<^verbatim>\<open>foo_pass\<close> (the lower-cased prefix) bound to
  \<open>u\<close> and \<open>p\<close>, and nothing else.
\<close>

theorem build_sensitive_data_single_known_service:
  assumes table: "DOMAIN_MAP FOO = Some D"
    and user: "getenv env (FOO @ ''_USER'') = Some u" "u \<noteq> []"
    and pass: "getenv env (FOO @ ''_PASS'') = Some p" "p \<noteq> []"
    and no_domain: "getenv env (FOO @ ''_DOMAIN'') = None"
    and only: "\<forall>k\<in>set (map fst env).
                 endswith k ''_USER'' \<or> endswith k ''_EMAIL'' \<longrightarrow> k = FOO @ ''_USER''"
  shows "build_sensitive_data env =
         Inr [(D, [(lower FOO @ ''_user'', u), (lower FOO @ ''_pass'', p)])]"
proof -
  let ?K = "FOO @ ''_USER''"
  let ?sub = "[(lower FOO @ ''_user'', u), (lower FOO @ ''_pass'', p)]"
  have id: "is_identity_key ?K" by (simp add: is_identity_key_def)
  have "?K \<in> set (map fst env)"
    using user(1) by (auto simp: getenv_def dest!: map_of_SomeD intro: rev_image_eqI)
  then obtain ks1 ks2 where keys: "map fst env = ks1 @ ?K # ks2" and first: "?K \<notin> set ks1"
    by (meson split_list_first)
  have only': "k = ?K" if "is_identity_key k" "k \<in> set (ks1 @ ?K # ks2)" for k
  proof -
    from that(2) have "k \<in> set (map fst env)" by (simp only: keys)
    with only that(1) show ?thesis unfolding is_identity_key_def by blast
  qed
  have s1: "foldl (step env) ([], {}) ks1 = ([], {})"
    by (rule foldl_step_skip) (use only' first in auto)
  have "resolved_domain env FOO = Some D"
    using table no_domain by (simp add: resolved_domain_def py_or_def falsy_def)
  then have "entry_of env ?K = Some (D, ?sub)"
    using entry_of_Some [of env ?K u p D] user pass DOMAIN_MAP_nonempty [OF table] by simp
  then have s2: "step env ([], {}) ?K = ([(D, ?sub)], {FOO})"
    using step_write [OF id, of "{}" env D ?sub "[]"] by simp
  have s3: "foldl (step env) ([(D, ?sub)], {FOO}) ks2 = ([(D, ?sub)], {FOO})"
  proof (rule foldl_step_skip, intro ballI impI)
    fix k assume "k \<in> set ks2" "is_identity_key k"
    then have "k = ?K" using only' by simp
    then show "key_prefix k \<in> snd ([(D, ?sub)], {FOO})" by simp
  qed
  show ?thesis
    by (simp add: build_sensitive_data_def build_over_foldl keys s1 s2 s3)
qed

theorem build_sensitive_data_single_known_service_witness:
  "build_sensitive_data
     [(''GITHUB_USER'', ''octocat''), (''HOME'', ''/home/dev''), (''GITHUB_PASS'', ''s3cret'')] =
   Inr [(''https://*.github.com'', [(''github_user'', ''octocat''), (''github_pass'', ''s3cret'')])]"
proof -
  let ?env = "[(''GITHUB_USER'', ''octocat''), (''HOME'', ''/home/dev''), (''GITHUB_PASS'', ''s3cret'')]"
  have 1: "DOMAIN_MAP ''GITHUB'' = Some ''https://*.github.com''"
    by (simp add: DOMAIN_MAP_def)
  have 2: "getenv ?env (''GITHUB'' @ ''_USER'') = Some ''octocat''" "''octocat'' \<noteq> []"
    by (simp_all add: getenv_def)
  have 3: "getenv ?env (''GITHUB'' @ ''_PASS'') = Some ''s3cret''" "''s3cret'' \<noteq> []"
    by (simp_all add: getenv_def)
  have 4: "getenv ?env (''GITHUB'' @ ''_DOMAIN'') = None"
    by (simp add: getenv_def)
  have 5: "\<forall>k\<in>set (map fst ?env).
             endswith k ''_USER'' \<or> endswith k ''_EMAIL'' \<longrightarrow> k = ''GITHUB'' @ ''_USER''"
    by (simp add: endswith_def)
  have 6: "lower ''GITHUB'' = ''github''"
    by (simp add: lower_def lower_char_def is_ascii_def)
  show ?thesis
    using build_sensitive_data_single_known_service [OF 1 2 3 4 5] by (simp add: 6)
qed

text \<open>
  C2. In the dictionary that \<^verbatim>\<open>build_sensitive_data\<close> returns, the value at every domain
  key has exactly two keys, the lower-cased prefix followed by \<^verbatim>\<open>_user\<close> and by
  \<^verbatim>\<open>_pass\<close>, for the prefix of one identity key of the environment. When two different
  prefixes resolve to the same domain, the entry of the one whose key is enumerated
  later replaces the entry of the earlier one: after the earlier key the domain holds
  the earlier placeholders, and the result holds the later ones (no third prefix that
  resolves to the same domain being enumerated after them).
\<close>

theorem build_sensitive_data_placeholders_last_write_wins:
  "(\<forall>c D sub. build_sensitive_data env = Inr c \<longrightarrow> map_of c D = Some sub \<longrightarrow>
      (\<exists>k\<in>set (map fst env). \<exists>u p. is_identity_key k \<and>
          getenv env k = Some u \<and> getenv env (key_prefix k @ ''_PASS'') = Some p \<and>
          sub = [(lower (key_prefix k) @ ''_user'', u), (lower (key_prefix k) @ ''_pass'', p)] \<and>
          distinct (map fst sub))) \<and>
   (\<forall>ks1 k1 ks2 k2 ks3 D u1 p1 u2 p2.
      map fst env = ks1 @ k1 # ks2 @ k2 # ks3 \<longrightarrow>
      is_identity_key k1 \<longrightarrow> is_identity_key k2 \<longrightarrow> key_prefix k1 \<noteq> key_prefix k2 \<longrightarrow>
      (\<forall>k\<in>set ks1. is_identity_key k \<longrightarrow> key_prefix k \<noteq> key_prefix k1) \<longrightarrow>
      (\<forall>k\<in>set (ks1 @ ks2). is_identity_key k \<longrightarrow> key_prefix k \<noteq> key_prefix k2) \<longrightarrow>
      getenv env k1 = Some u1 \<longrightarrow> u1 \<noteq> [] \<longrightarrow>
      getenv env (key_prefix k1 @ ''_PASS'') = Some p1 \<longrightarrow> p1 \<noteq> [] \<longrightarrow>
      getenv env k2 = Some u2 \<longrightarrow> u2 \<noteq> [] \<longrightarrow>
      getenv env (key_prefix k2 @ ''_PASS'') = Some p2 \<longrightarrow> p2 \<noteq> [] \<longrightarrow>
      resolved_domain env (key_prefix k1) = Some D \<longrightarrow>
      resolved_domain env (key_prefix k2) = Some D \<longrightarrow>
      (\<forall>k\<in>set ks3. is_identity_key k \<longrightarrow>
         key_prefix k \<in> {key_prefix k1, key_prefix k2} \<or>
         resolved_domain env (key_prefix k) \<noteq> Some D) \<longrightarrow>
      (\<exists>c1 c. build_over env (ks1 @ [k1]) = Inr c1 \<and>
         map_of c1 D =
           Some [(lower (key_prefix k1) @ ''_user'', u1), (lower (key_prefix k1) @ ''_pass'', p1)] \<and>
         build_sensitive_data env = Inr c \<and>
         map_of c D =
           Some [(lower (key_prefix k2) @ ''_user'', u2), (lower (key_prefix k2) @ ''_pass'', p2)]))"
proof (intro conjI allI impI)
  fix c D sub
  assume "build_sensitive_data env = Inr c" "map_of c D = Some sub"
  from build_entries [OF this] obtain k where k: "k \<in> set (map fst env)" "is_identity_key k"
    and e: "entry_of env k = Some (D, sub)" by blast
  from entry_of_SomeD [OF e] obtain u p where
    "getenv env k = Some u" "getenv env (key_prefix k @ ''_PASS'') = Some p"
    "sub = [(lower (key_prefix k) @ ''_user'', u), (lower (key_prefix k) @ ''_pass'', p)]"
    by blast
  with k show "\<exists>k\<in>set (map fst env). \<exists>u p. is_identity_key k \<and>
          getenv env k = Some u \<and> getenv env (key_prefix k @ ''_PASS'') = Some p \<and>
          sub = [(lower (key_prefix k) @ ''_user'', u), (lower (key_prefix k) @ ''_pass'', p)] \<and>
          distinct (map fst sub)"
    by (intro bexI [of _ k] exI [of _ u] exI [of _ p]) simp_all
next
  fix ks1 ks2 ks3 :: "string list" and k1 k2 D u1 p1 u2 p2 :: string
  let ?sub1 = "[(lower (key_prefix k1) @ ''_user'', u1), (lower (key_prefix k1) @ ''_pass'', p1)]"
  let ?sub2 = "[(lower (key_prefix k2) @ ''_user'', u2), (lower (key_prefix k2) @ ''_pass'', p2)]"
  assume keys: "map fst env = ks1 @ k1 # ks2 @ k2 # ks3"
    and id: "is_identity_key k1" "is_identity_key k2"
    and diff: "key_prefix k1 \<noteq> key_prefix k2"
    and first1: "\<forall>k\<in>set ks1. is_identity_key k \<longrightarrow> key_prefix k \<noteq> key_prefix k1"
    and first2: "\<forall>k\<in>set (ks1 @ ks2). is_identity_key k \<longrightarrow> key_prefix k \<noteq> key_prefix k2"
    and c1: "getenv env k1 = Some u1" "u1 \<noteq> []"
            "getenv env (key_prefix k1 @ ''_PASS'') = Some p1" "p1 \<noteq> []"
    and c2: "getenv env k2 = Some u2" "u2 \<noteq> []"
            "getenv env (key_prefix k2 @ ''_PASS'') = Some p2" "p2 \<noteq> []"
    and d1: "resolved_domain env (key_prefix k1) = Some D"
    and d2: "resolved_domain env (key_prefix k2) = Some D"
    and later: "\<forall>k\<in>set ks3. is_identity_key k \<longrightarrow>
         key_prefix k \<in> {key_prefix k1, key_prefix k2} \<or>
         resolved_domain env (key_prefix k) \<noteq> Some D"
  have D: "D \<noteq> []" using d1 by (rule resolved_domain_truthy)
  have e1: "entry_of env k1 = Some (D, ?sub1)" using c1 d1 D by (rule entry_of_Some)
  have e2: "entry_of env k2 = Some (D, ?sub2)" using c2 d2 D by (rule entry_of_Some)
  have w1: "map_of (fst (foldl (step env) ([], {}) (ks1 @ k1 # []))) D = Some ?sub1"
    by (rule last_write [OF id(1) first1 e1]) simp
  have first2': "\<forall>k\<in>set (ks1 @ k1 # ks2). is_identity_key k \<longrightarrow> key_prefix k \<noteq> key_prefix k2"
    using first2 diff by auto
  have w2: "map_of (fst (foldl (step env) ([], {}) ((ks1 @ k1 # ks2) @ k2 # ks3))) D = Some ?sub2"
  proof (rule last_write [OF id(2) first2' e2], intro ballI impI)
    fix k assume "k \<in> set ks3" "is_identity_key k"
    with later have "key_prefix k \<in> {key_prefix k1, key_prefix k2} \<or>
         resolved_domain env (key_prefix k) \<noteq> Some D" by blast
    moreover have "{key_prefix k1, key_prefix k2} \<subseteq>
        key_prefix ` {x \<in> set ((ks1 @ k1 # ks2) @ [k2]). is_identity_key x}"
      using id by auto
    ultimately show "key_prefix k \<in> key_prefix ` {x \<in> set ((ks1 @ k1 # ks2) @ [k2]). is_identity_key x} \<or>
         resolved_domain env (key_prefix k) \<noteq> Some D" by blast
  qed
  show "\<exists>c1 c. build_over env (ks1 @ [k1]) = Inr c1 \<and> map_of c1 D = Some ?sub1 \<and>
         build_sensitive_data env = Inr c \<and> map_of c D = Some ?sub2"
    using w1 w2 by (simp add: build_sensitive_data_def build_over_foldl keys)
qed


theorem build_sensitive_data_placeholders_last_write_wins_witness:
  "(\<exists>c1 c.
      build_over
        [(''GMAIL_EMAIL'', ''me@example.org''), (''GMAIL_PASS'', ''m''),
         (''GOOGLE_USER'', ''you''), (''GOOGLE_PASS'', ''g'')]
        [''GMAIL_EMAIL''] = Inr c1 \<and>
      map_of c1 ''https://*.google.com'' =
        Some [(''gmail_user'', ''me@example.org''), (''gmail_pass'', ''m'')] \<and>
      build_sensitive_data
        [(''GMAIL_EMAIL'', ''me@example.org''), (''GMAIL_PASS'', ''m''),
         (''GOOGLE_USER'', ''you''), (''GOOGLE_PASS'', ''g'')] = Inr c \<and>
      map_of c ''https://*.google.com'' =
        Some [(''google_user'', ''you''), (''google_pass'', ''g'')]) \<and>
   build_sensitive_data
     [(''GMAIL_EMAIL'', ''me@example.org''), (''GMAIL_PASS'', ''m''),
      (''GOOGLE_USER'', ''you''), (''GOOGLE_PASS'', ''g'')] =
     Inr [(''https://*.google.com'', [(''google_user'', ''you''), (''google_pass'', ''g'')])] \<and>
   distinct (map fst [(''google_user'', ''you''), (''google_pass'', ''g'')])"
proof -
  let ?env = "[(''GMAIL_EMAIL'', ''me@example.org''), (''GMAIL_PASS'', ''m''),
               (''GOOGLE_USER'', ''you''), (''GOOGLE_PASS'', ''g'')]"
  let ?G = "''https://*.google.com''"
  note T = build_sensitive_data_placeholders_last_write_wins [of ?env]
  have keys: "map fst ?env = [] @ ''GMAIL_EMAIL'' # [''GMAIL_PASS''] @ ''GOOGLE_USER'' # [''GOOGLE_PASS'']"
    by simp
  have id: "is_identity_key ''GMAIL_EMAIL''" "is_identity_key ''GOOGLE_USER''"
    "\<not> is_identity_key ''GMAIL_PASS''" "\<not> is_identity_key ''GOOGLE_PASS''"
    by (simp_all add: is_identity_key_def endswith_def)
  have pre: "key_prefix ''GMAIL_EMAIL'' = ''GMAIL''" "key_prefix ''GOOGLE_USER'' = ''GOOGLE''"
    by (simp_all add: key_prefix_def rsplit1_def)
  have low: "lower ''GMAIL'' = ''gmail''" "lower ''GOOGLE'' = ''google''"
    by (simp_all add: lower_def lower_char_def is_ascii_def)
  have dom: "resolved_domain ?env ''GMAIL'' = Some ?G" "resolved_domain ?env ''GOOGLE'' = Some ?G"
    by (simp_all add: resolved_domain_def py_or_def falsy_def getenv_def DOMAIN_MAP_def)
  have val: "getenv ?env ''GMAIL_EMAIL'' = Some ''me@example.org''"
    "getenv ?env ''GMAIL_PASS'' = Some ''m''"
    "getenv ?env ''GOOGLE_USER'' = Some ''you''"
    "getenv ?env ''GOOGLE_PASS'' = Some ''g''"
    by (simp_all add: getenv_def)
  have run: "build_sensitive_data ?env =
      Inr [(?G, [(''google_user'', ''you''), (''google_pass'', ''g'')])]"
    by (simp add: build_sensitive_data_def build_over_def loop_body_def endswith_def rsplit1_def
        index0_def getenv_def falsy_def py_or_def DOMAIN_MAP_def lower_def lower_char_def is_ascii_def)
  have b: "\<exists>c1 c. build_over ?env ([] @ [''GMAIL_EMAIL'']) = Inr c1 \<and>
      map_of c1 ?G = Some [(lower (key_prefix ''GMAIL_EMAIL'') @ ''_user'', ''me@example.org''),
                          (lower (key_prefix ''GMAIL_EMAIL'') @ ''_pass'', ''m'')] \<and>
      build_sensitive_data ?env = Inr c \<and>
      map_of c ?G = Some [(lower (key_prefix ''GOOGLE_USER'') @ ''_user'', ''you''),
                         (lower (key_prefix ''GOOGLE_USER'') @ ''_pass'', ''g'')]"
    by (rule T [THEN conjunct2, rule_format, OF keys]) (simp_all add: id pre dom val)
  have a: "\<exists>k\<in>set (map fst ?env). \<exists>u p. is_identity_key k \<and>
          getenv ?env k = Some u \<and> getenv ?env (key_prefix k @ ''_PASS'') = Some p \<and>
          [(''google_user'', ''you''), (''google_pass'', ''g'')] =
            [(lower (key_prefix k) @ ''_user'', u), (lower (key_prefix k) @ ''_pass'', p)] \<and>
          distinct (map fst [(''google_user'', ''you''), (''google_pass'', ''g'')])"
    by (rule T [THEN conjunct1, rule_format, OF run]) simp
  from a b run show ?thesis by (simp add: pre low)
qed

text \<open>
  C5. \<^verbatim>\<open>build_sensitive_data\<close> raises no error on any environment. When
  \<^verbatim>\<open>FOO_PASS\<close> is absent or empty, no iteration on a key of prefix \<open>FOO\<close> changes the
  credentials, and the result is the one obtained when the identity keys of \<open>FOO\<close> are
  not enumerated at all; an environment in which every identity key lacks its password
  yields the empty dictionary.
\<close>

theorem build_sensitive_data_no_error_incomplete_omitted:
  "(\<exists>c. build_sensitive_data env = Inr c) \<and>
   (falsy (getenv env (FOO @ ''_PASS'')) \<longrightarrow>
      build_sensitive_data env =
        build_over env (filter (\<lambda>k. \<not> (is_identity_key k \<and> key_prefix k = FOO)) (map fst env)) \<and>
      (\<forall>k c seen. is_identity_key k \<and> key_prefix k = FOO \<longrightarrow>
         (\<exists>seen'. loop_body env (c, seen) k = Inr (c, seen')))) \<and>
   ((\<forall>k\<in>set (map fst env). is_identity_key k \<longrightarrow> falsy (getenv env (key_prefix k @ ''_PASS''))) \<longrightarrow>
      build_sensitive_data env = Inr [])"
proof (intro conjI impI allI)
  show "\<exists>c. build_sensitive_data env = Inr c"
    by (simp add: build_sensitive_data_foldl)
next
  assume no_pass: "falsy (getenv env (FOO @ ''_PASS''))"
  have none: "entry_of env k = None" if "has_prefix FOO k" for k
    using that no_pass by (auto simp: has_prefix_def intro: entry_of_no_pass)
  have "\<forall>k. List.find (has_prefix FOO) (map fst env) = Some k \<longrightarrow> entry_of env k = None"
    using none by (auto simp: find_Some_iff)
  from build_drop_prefix [OF this]
  show "build_sensitive_data env =
        build_over env (filter (\<lambda>k. \<not> (is_identity_key k \<and> key_prefix k = FOO)) (map fst env))"
    by (simp add: has_prefix_def)
  fix k c seen
  assume "is_identity_key k \<and> key_prefix k = FOO"
  then have "entry_of env k = None" using none by (simp add: has_prefix_def)
  then show "\<exists>seen'. loop_body env (c, seen) k = Inr (c, seen')"
    by (simp add: loop_body_no_entry)
next
  assume "\<forall>k\<in>set (map fst env). is_identity_key k \<longrightarrow> falsy (getenv env (key_prefix k @ ''_PASS''))"
  then have "\<forall>k\<in>set (map fst env). is_identity_key k \<longrightarrow> entry_of env k = None"
    by (blast intro: entry_of_no_pass)
  from foldl_step_no_entry [OF this, of "([], {})"]
  show "build_sensitive_data env = Inr []"
    by (simp add: build_sensitive_data_foldl)
qed

theorem build_sensitive_data_no_error_incomplete_omitted_witness:
  "falsy (getenv [(''GITHUB_USER'', ''octocat''), (''GITLAB_EMAIL'', ''me@example.org''),
                  (''GITLAB_PASS'', '''')] ''GITHUB_PASS'') \<and>
   build_sensitive_data
     [(''GITHUB_USER'', ''octocat''), (''GITLAB_EMAIL'', ''me@example.org''), (''GITLAB_PASS'', '''')] =
   build_over
     [(''GITHUB_USER'', ''octocat''), (''GITLAB_EMAIL'', ''me@example.org''), (''GITLAB_PASS'', '''')]
     [''GITLAB_EMAIL'', ''GITLAB_PASS''] \<and>
   build_sensitive_data
     [(''GITHUB_USER'', ''octocat''), (''GITLAB_EMAIL'', ''me@example.org''), (''GITLAB_PASS'', '''')] =
   Inr [] \<and>
   (\<exists>seen'. loop_body
      [(''GITHUB_USER'', ''octocat''), (''GITLAB_EMAIL'', ''me@example.org''), (''GITLAB_PASS'', '''')]
      ([], {}) ''GITHUB_USER'' = Inr ([], seen'))"
proof -
  let ?env = "[(''GITHUB_USER'', ''octocat''), (''GITLAB_EMAIL'', ''me@example.org''),
               (''GITLAB_PASS'', '''')]"
  note T = build_sensitive_data_no_error_incomplete_omitted [of ?env "''GITHUB''"]
  have id: "is_identity_key ''GITHUB_USER''" "is_identity_key ''GITLAB_EMAIL''"
    "\<not> is_identity_key ''GITLAB_PASS''"
    by (simp_all add: is_identity_key_def endswith_def)
  have pre: "key_prefix ''GITHUB_USER'' = ''GITHUB''" "key_prefix ''GITLAB_EMAIL'' = ''GITLAB''"
    by (simp_all add: key_prefix_def rsplit1_def)
  have f: "falsy (getenv ?env (''GITHUB'' @ ''_PASS''))" "falsy (getenv ?env ''GITLAB_PASS'')"
    by (simp_all add: falsy_def getenv_def)
  have all: "\<forall>k\<in>set (map fst ?env). is_identity_key k \<longrightarrow> falsy (getenv ?env (key_prefix k @ ''_PASS''))"
    using f by (simp add: id pre)
  have 1: "build_sensitive_data ?env =
        build_over ?env (filter (\<lambda>k. \<not> (is_identity_key k \<and> key_prefix k = ''GITHUB'')) (map fst ?env))"
    using T f(1) by blast
  have 2: "\<exists>seen'. loop_body ?env ([], {}) ''GITHUB_USER'' = Inr ([], seen')"
    using T f(1) id(1) pre(1) by blast
  have 3: "build_sensitive_data ?env = Inr []"
    using T all by blast
  from 1 2 3 f(1) show ?thesis by (simp add: id pre)
qed

text \<open>
  C6. Every prefix is processed once. When the key \<open>k1\<close> is the first identity key of its
  prefix in the enumeration, the prefix is not yet marked when the loop reaches \<open>k1\<close>,
  the iteration on \<open>k1\<close> takes the identity value from \<open>k1\<close> itself and marks the prefix,
  an iteration on a key whose prefix is marked changes nothing, and the result is the
  one obtained when the later identity keys of that prefix (the other form) are not
  enumerated at all. When \<open>k1\<close> has a non-empty value, the prefix a non-empty password
  and a domain, the result of the function holds, under that domain, the placeholders
  with the value of \<open>k1\<close> (no other prefix that resolves to the same domain being
  enumerated after \<open>k1\<close>), whatever was stored for the keys before \<open>k1\<close>.
\<close>

theorem build_sensitive_data_first_identity_form_wins:
  assumes keys: "map fst env = ks1 @ k1 # ks2"
    and id: "is_identity_key k1"
    and first: "\<forall>k\<in>set ks1. is_identity_key k \<longrightarrow> key_prefix k \<noteq> key_prefix k1"
  shows "build_sensitive_data env =
           build_over env
             (ks1 @ k1 # filter (\<lambda>k. \<not> (is_identity_key k \<and> key_prefix k = key_prefix k1)) ks2) \<and>
         (\<exists>c seen. loop env ks1 ([], {}) = Inr (c, seen) \<and> key_prefix k1 \<notin> seen) \<and>
         (\<forall>c seen k. is_identity_key k \<longrightarrow>
            (\<exists>c'. loop_body env (c, seen) k = Inr (c', insert (key_prefix k) seen)) \<and>
            (key_prefix k \<in> seen \<longrightarrow> loop_body env (c, seen) k = Inr (c, seen))) \<and>
         (\<forall>c seen u p D.
            key_prefix k1 \<notin> seen \<longrightarrow> getenv env k1 = Some u \<longrightarrow> u \<noteq> [] \<longrightarrow>
            getenv env (key_prefix k1 @ ''_PASS'') = Some p \<longrightarrow> p \<noteq> [] \<longrightarrow>
            resolved_domain env (key_prefix k1) = Some D \<longrightarrow>
            loop_body env (c, seen) k1 =
              Inr (AList.update D
                     [(lower (key_prefix k1) @ ''_user'', u), (lower (key_prefix k1) @ ''_pass'', p)] c,
                   insert (key_prefix k1) seen)) \<and>
         (\<forall>u p D.
            getenv env k1 = Some u \<longrightarrow> u \<noteq> [] \<longrightarrow>
            getenv env (key_prefix k1 @ ''_PASS'') = Some p \<longrightarrow> p \<noteq> [] \<longrightarrow>
            resolved_domain env (key_prefix k1) = Some D \<longrightarrow>
            (\<forall>k\<in>set ks2. is_identity_key k \<longrightarrow>
               key_prefix k = key_prefix k1 \<or> resolved_domain env (key_prefix k) \<noteq> Some D) \<longrightarrow>
            (\<exists>c. build_sensitive_data env = Inr c \<and>
               map_of c D =
                 Some [(lower (key_prefix k1) @ ''_user'', u),
                       (lower (key_prefix k1) @ ''_pass'', p)]))"
proof (intro conjI allI impI)
  from build_first_form [OF keys id]
  show "build_sensitive_data env =
          build_over env
            (ks1 @ k1 # filter (\<lambda>k. \<not> (is_identity_key k \<and> key_prefix k = key_prefix k1)) ks2)"
    by (simp add: has_prefix_def)
next
  have "key_prefix k1 \<notin> snd (foldl (step env) ([], {}) ks1)"
    using first by (auto simp: foldl_step_seen)
  then show "\<exists>c seen. loop env ks1 ([], {}) = Inr (c, seen) \<and> key_prefix k1 \<notin> seen"
    by (simp add: loop_foldl prod_eq_iff)
next
  fix c seen k
  assume "is_identity_key k"
  then show "\<exists>c'. loop_body env (c, seen) k = Inr (c', insert (key_prefix k) seen)"
    by (rule loop_body_seen)
next
  fix c seen k
  assume "key_prefix k \<in> seen"
  then show "loop_body env (c, seen) k = Inr (c, seen)"
    by (simp add: loop_body_skip)
next
  fix c seen u p D
  assume "key_prefix k1 \<notin> seen" "getenv env k1 = Some u" "u \<noteq> []"
    "getenv env (key_prefix k1 @ ''_PASS'') = Some p" "p \<noteq> []"
    "resolved_domain env (key_prefix k1) = Some D"
  then show "loop_body env (c, seen) k1 =
      Inr (AList.update D
             [(lower (key_prefix k1) @ ''_user'', u), (lower (key_prefix k1) @ ''_pass'', p)] c,
           insert (key_prefix k1) seen)"
    using id entry_of_Some [of env k1 u p D] resolved_domain_truthy [of env "key_prefix k1" D]
    by (simp add: loop_body_step step_write)
next
  fix u p D :: string
  let ?sub = "[(lower (key_prefix k1) @ ''_user'', u), (lower (key_prefix k1) @ ''_pass'', p)]"
  assume v: "getenv env k1 = Some u" "u \<noteq> []"
    "getenv env (key_prefix k1 @ ''_PASS'') = Some p" "p \<noteq> []"
    and d: "resolved_domain env (key_prefix k1) = Some D"
    and later: "\<forall>k\<in>set ks2. is_identity_key k \<longrightarrow>
      key_prefix k = key_prefix k1 \<or> resolved_domain env (key_prefix k) \<noteq> Some D"
  have entry: "entry_of env k1 = Some (D, ?sub)"
    using v d resolved_domain_truthy [OF d] by (rule entry_of_Some)
  have "map_of (fst (foldl (step env) ([], {}) (ks1 @ k1 # ks2))) D = Some ?sub"
    by (rule last_write [OF id first entry]) (use later id in auto)
  then show "\<exists>c. build_sensitive_data env = Inr c \<and> map_of c D = Some ?sub"
    by (simp add: build_sensitive_data_foldl keys)
qed

theorem build_sensitive_data_first_identity_form_wins_witness:
  "build_sensitive_data
     [(''GITHUB_USER'', ''octocat''), (''GITHUB_PASS'', ''s3cret''),
      (''GMAIL_EMAIL'', ''me@example.org''), (''GMAIL_PASS'', ''m''), (''GMAIL_USER'', ''me'')] =
   build_over
     [(''GITHUB_USER'', ''octocat''), (''GITHUB_PASS'', ''s3cret''),
      (''GMAIL_EMAIL'', ''me@example.org''), (''GMAIL_PASS'', ''m''), (''GMAIL_USER'', ''me'')]
     [''GITHUB_USER'', ''GITHUB_PASS'', ''GMAIL_EMAIL'', ''GMAIL_PASS''] \<and>
   (\<exists>c. build_sensitive_data
           [(''GITHUB_USER'', ''octocat''), (''GITHUB_PASS'', ''s3cret''),
            (''GMAIL_EMAIL'', ''me@example.org''), (''GMAIL_PASS'', ''m''), (''GMAIL_USER'', ''me'')] =
         Inr c \<and>
         map_of c ''https://*.google.com'' =
           Some [(''gmail_user'', ''me@example.org''), (''gmail_pass'', ''m'')]) \<and>
   build_sensitive_data
     [(''GITHUB_USER'', ''octocat''), (''GITHUB_PASS'', ''s3cret''),
      (''GMAIL_EMAIL'', ''me@example.org''), (''GMAIL_PASS'', ''m''), (''GMAIL_USER'', ''me'')] =
   Inr [(''https://*.github.com'', [(''github_user'', ''octocat''), (''github_pass'', ''s3cret'')]),
        (''https://*.google.com'', [(''gmail_user'', ''me@example.org''), (''gmail_pass'', ''m'')])] \<and>
   build_sensitive_data
     [(''GMAIL_USER'', ''me''), (''GMAIL_PASS'', ''m''), (''GMAIL_EMAIL'', ''me@example.org'')] =
   Inr [(''https://*.google.com'', [(''gmail_user'', ''me''), (''gmail_pass'', ''m'')])]"
proof -
  let ?env = "[(''GITHUB_USER'', ''octocat''), (''GITHUB_PASS'', ''s3cret''),
               (''GMAIL_EMAIL'', ''me@example.org''), (''GMAIL_PASS'', ''m''), (''GMAIL_USER'', ''me'')]"
  have keys: "map fst ?env =
      [''GITHUB_USER'', ''GITHUB_PASS''] @ ''GMAIL_EMAIL'' # [''GMAIL_PASS'', ''GMAIL_USER'']"
    by simp
  have id: "is_identity_key ''GMAIL_EMAIL''" "is_identity_key ''GMAIL_USER''"
    "is_identity_key ''GITHUB_USER''"
    "\<not> is_identity_key ''GMAIL_PASS''" "\<not> is_identity_key ''GITHUB_PASS''"
    by (simp_all add: is_identity_key_def endswith_def)
  have pre: "key_prefix ''GMAIL_EMAIL'' = ''GMAIL''" "key_prefix ''GMAIL_USER'' = ''GMAIL''"
    "key_prefix ''GITHUB_USER'' = ''GITHUB''"
    by (simp_all add: key_prefix_def rsplit1_def)
  have first: "\<forall>k\<in>set [''GITHUB_USER'', ''GITHUB_PASS''].
      is_identity_key k \<longrightarrow> key_prefix k \<noteq> key_prefix ''GMAIL_EMAIL''"
    by (simp add: id pre)
  have val: "getenv ?env ''GMAIL_EMAIL'' = Some ''me@example.org''"
    "getenv ?env (key_prefix ''GMAIL_EMAIL'' @ ''_PASS'') = Some ''m''"
    by (simp_all add: getenv_def pre)
  have dom: "resolved_domain ?env (key_prefix ''GMAIL_EMAIL'') = Some ''https://*.google.com''"
    by (simp add: pre resolved_domain_def py_or_def falsy_def getenv_def DOMAIN_MAP_def)
  note T = build_sensitive_data_first_identity_form_wins [OF keys id(1) first]
  have 1: "build_sensitive_data ?env =
      build_over ?env [''GITHUB_USER'', ''GITHUB_PASS'', ''GMAIL_EMAIL'', ''GMAIL_PASS'']"
    using T [THEN conjunct1] by (simp add: id pre)
  have 2: "\<exists>c. build_sensitive_data ?env = Inr c \<and>
      map_of c ''https://*.google.com'' =
        Some [(lower (key_prefix ''GMAIL_EMAIL'') @ ''_user'', ''me@example.org''),
              (lower (key_prefix ''GMAIL_EMAIL'') @ ''_pass'', ''m'')]"
    by (rule T [THEN conjunct2, THEN conjunct2, THEN conjunct2, THEN conjunct2, rule_format,
          OF val(1) _ val(2) _ dom])
       (auto simp: id pre)
  have 3: "build_sensitive_data ?env =
      Inr [(''https://*.github.com'', [(''github_user'', ''octocat''), (''github_pass'', ''s3cret'')]),
           (''https://*.google.com'', [(''gmail_user'', ''me@example.org''), (''gmail_pass'', ''m'')])]"
    by (simp add: build_sensitive_data_def build_over_def loop_body_def endswith_def rsplit1_def
        index0_def getenv_def falsy_def py_or_def DOMAIN_MAP_def lower_def lower_char_def
        is_ascii_def)
  have 4: "build_sensitive_data
      [(''GMAIL_USER'', ''me''), (''GMAIL_PASS'', ''m''), (''GMAIL_EMAIL'', ''me@example.org'')] =
      Inr [(''https://*.google.com'', [(''gmail_user'', ''me''), (''gmail_pass'', ''m'')])]"
    by (simp add: build_sensitive_data_def build_over_def loop_body_def endswith_def rsplit1_def
        index0_def getenv_def falsy_def py_or_def DOMAIN_MAP_def lower_def lower_char_def
        is_ascii_def)
  have low: "lower ''GMAIL'' = ''gmail''"
    by (simp add: lower_def lower_char_def is_ascii_def)
  from 1 2 3 4 show ?thesis by (simp add: pre low)
qed

text \<open>
  C9. When the first identity key of a prefix in the enumeration has the empty string as
  its value, the prefix is marked as processed by that iteration, which stores nothing;
  the result is the one obtained when no identity key of that prefix is enumerated,
  whatever the later keys of the prefix, its password and its domain are.
\<close>

theorem build_sensitive_data_empty_first_identity_blocks_prefix:
  assumes keys: "map fst env = ks1 @ k1 # ks2"
    and id: "is_identity_key k1"
    and first: "\<forall>k\<in>set ks1. is_identity_key k \<longrightarrow> key_prefix k \<noteq> key_prefix k1"
    and empty: "getenv env k1 = Some []"
  shows "build_sensitive_data env =
           build_over env
             (filter (\<lambda>k. \<not> (is_identity_key k \<and> key_prefix k = key_prefix k1)) (map fst env)) \<and>
         (\<forall>c seen. key_prefix k1 \<notin> seen \<longrightarrow>
            loop_body env (c, seen) k1 = Inr (c, insert (key_prefix k1) seen))"
proof
  have none: "entry_of env k1 = None"
    using empty by (simp add: entry_of_no_user falsy_def)
  have "List.find (has_prefix (key_prefix k1)) (ks1 @ k1 # ks2) = Some k1"
    by (rule find_first_has_prefix) (use first id in \<open>auto simp: has_prefix_def\<close>)
  then have "\<forall>k. List.find (has_prefix (key_prefix k1)) (map fst env) = Some k \<longrightarrow>
      entry_of env k = None"
    using none by (simp add: keys)
  from build_drop_prefix [OF this]
  show "build_sensitive_data env =
          build_over env
            (filter (\<lambda>k. \<not> (is_identity_key k \<and> key_prefix k = key_prefix k1)) (map fst env))"
    by (simp add: has_prefix_def)
  show "\<forall>c seen. key_prefix k1 \<notin> seen \<longrightarrow>
          loop_body env (c, seen) k1 = Inr (c, insert (key_prefix k1) seen)"
    using id none by (simp add: loop_body_mark_only)
qed

theorem build_sensitive_data_empty_first_identity_blocks_prefix_witness:
  "build_sensitive_data
     [(''GITHUB_EMAIL'', ''''), (''GITHUB_USER'', ''octocat''), (''GITHUB_PASS'', ''s3cret'')] =
   Inr [] \<and>
   build_sensitive_data [(''GITHUB_USER'', ''octocat''), (''GITHUB_PASS'', ''s3cret'')] =
   Inr [(''https://*.github.com'', [(''github_user'', ''octocat''), (''github_pass'', ''s3cret'')])] \<and>
   loop_body [(''GITHUB_EMAIL'', ''''), (''GITHUB_USER'', ''octocat''), (''GITHUB_PASS'', ''s3cret'')]
     ([], {}) ''GITHUB_EMAIL'' = Inr ([], {''GITHUB''})"
proof -
  let ?env = "[(''GITHUB_EMAIL'', ''''), (''GITHUB_USER'', ''octocat''), (''GITHUB_PASS'', ''s3cret'')]"
  have keys: "map fst ?env = [] @ ''GITHUB_EMAIL'' # [''GITHUB_USER'', ''GITHUB_PASS'']"
    by simp
  have id: "is_identity_key ''GITHUB_EMAIL''" "is_identity_key ''GITHUB_USER''"
    "\<not> is_identity_key ''GITHUB_PASS''"
    by (simp_all add: is_identity_key_def endswith_def)
  have pre: "key_prefix ''GITHUB_EMAIL'' = ''GITHUB''" "key_prefix ''GITHUB_USER'' = ''GITHUB''"
    by (simp_all add: key_prefix_def rsplit1_def)
  have empty: "getenv ?env ''GITHUB_EMAIL'' = Some []"
    by (simp add: getenv_def)
  note T = build_sensitive_data_empty_first_identity_blocks_prefix [OF keys id(1) _ empty]
  have 1: "build_sensitive_data ?env = build_over ?env [''GITHUB_PASS'']"
    using T by (simp add: id pre)
  have 2: "build_over ?env [''GITHUB_PASS''] = Inr []"
    by (simp add: build_over_foldl step_def id)
  have 3: "loop_body ?env ([], {}) ''GITHUB_EMAIL'' = Inr ([], {''GITHUB''})"
    using T by (simp add: pre)
  have 4: "build_sensitive_data [(''GITHUB_USER'', ''octocat''), (''GITHUB_PASS'', ''s3cret'')] =
      Inr [(''https://*.github.com'', [(''github_user'', ''octocat''), (''github_pass'', ''s3cret'')])]"
    by (simp add: build_sensitive_data_def build_over_def loop_body_def endswith_def rsplit1_def
        index0_def getenv_def falsy_def py_or_def DOMAIN_MAP_def lower_def lower_char_def is_ascii_def)
  from 1 2 3 4 show ?thesis by simp
qed

text \<open>
  C4, as amended. Let \<open>k\<close> be the first identity key of its prefix \<open>P\<close>, with a non-empty
  value and a non-empty \<^verbatim>\<open>P_PASS\<close>. If \<^verbatim>\<open>P_DOMAIN\<close> is set to a non-empty value \<open>d\<close>,
  the iteration on \<open>k\<close> stores the entry of \<open>P\<close> under \<open>d\<close>, whatever the static table
  holds for \<open>P\<close>, and the result has it under \<open>d\<close> when no later prefix resolves to
  \<open>d\<close>. If \<open>P\<close> is not in the static table and \<^verbatim>\<open>P_DOMAIN\<close> is not set, the iteration
  on \<open>k\<close> stores nothing and the result is the one obtained when the identity keys of
  \<open>P\<close> are not enumerated at all.
\<close>

theorem build_sensitive_data_domain_override_and_unknown:
  assumes keys: "map fst env = ks1 @ k # ks2"
    and id: "is_identity_key k"
    and first: "\<forall>k'\<in>set ks1. is_identity_key k' \<longrightarrow> key_prefix k' \<noteq> key_prefix k"
    and user: "getenv env k = Some u" "u \<noteq> []"
    and pass: "getenv env (key_prefix k @ ''_PASS'') = Some p" "p \<noteq> []"
  shows "(\<forall>d. getenv env (key_prefix k @ ''_DOMAIN'') = Some d \<longrightarrow> d \<noteq> [] \<longrightarrow>
            (\<exists>c seen. loop env ks1 ([], {}) = Inr (c, seen) \<and>
               loop env (ks1 @ [k]) ([], {}) =
                 Inr (AList.update d
                        [(lower (key_prefix k) @ ''_user'', u), (lower (key_prefix k) @ ''_pass'', p)] c,
                      insert (key_prefix k) seen)) \<and>
            ((\<forall>k'\<in>set ks2. is_identity_key k' \<longrightarrow>
                 key_prefix k' = key_prefix k \<or> resolved_domain env (key_prefix k') \<noteq> Some d) \<longrightarrow>
             (\<exists>c. build_sensitive_data env = Inr c \<and>
                map_of c d =
                  Some [(lower (key_prefix k) @ ''_user'', u), (lower (key_prefix k) @ ''_pass'', p)]))) \<and>
         (getenv env (key_prefix k @ ''_DOMAIN'') = None \<longrightarrow> DOMAIN_MAP (key_prefix k) = None \<longrightarrow>
            build_sensitive_data env =
              build_over env
                (filter (\<lambda>k'. \<not> (is_identity_key k' \<and> key_prefix k' = key_prefix k)) (map fst env)) \<and>
            (\<forall>c seen. key_prefix k \<notin> seen \<longrightarrow>
               loop_body env (c, seen) k = Inr (c, insert (key_prefix k) seen)))"
proof (intro conjI allI impI)
  fix d
  let ?sub = "[(lower (key_prefix k) @ ''_user'', u), (lower (key_prefix k) @ ''_pass'', p)]"
  assume d: "getenv env (key_prefix k @ ''_DOMAIN'') = Some d" "d \<noteq> []"
  then have "resolved_domain env (key_prefix k) = Some d"
    by (rule resolved_domain_override)
  with user pass have entry: "entry_of env k = Some (d, ?sub)"
    using d(2) by (rule entry_of_Some)
  define st where "st = foldl (step env) ([], {}) ks1"
  have "key_prefix k \<notin> snd st"
    using first by (auto simp: st_def foldl_step_seen)
  then have "step env st k = (AList.update d ?sub (fst st), insert (key_prefix k) (snd st))"
    using step_write [OF id _ entry, of "snd st" "fst st"] by simp
  then show "\<exists>c seen. loop env ks1 ([], {}) = Inr (c, seen) \<and>
      loop env (ks1 @ [k]) ([], {}) = Inr (AList.update d ?sub c, insert (key_prefix k) seen)"
    by (intro exI [of _ "fst st"] exI [of _ "snd st"]) (simp add: loop_foldl st_def)
  assume later: "\<forall>k'\<in>set ks2. is_identity_key k' \<longrightarrow>
      key_prefix k' = key_prefix k \<or> resolved_domain env (key_prefix k') \<noteq> Some d"
  have "map_of (fst (foldl (step env) ([], {}) (ks1 @ k # ks2))) d = Some ?sub"
    by (rule last_write [OF id first entry]) (use later id in auto)
  then show "\<exists>c. build_sensitive_data env = Inr c \<and> map_of c d = Some ?sub"
    by (simp add: build_sensitive_data_foldl keys)
next
  assume "getenv env (key_prefix k @ ''_DOMAIN'') = None" "DOMAIN_MAP (key_prefix k) = None"
  then have nodom: "falsy (resolved_domain env (key_prefix k))"
    by (simp add: resolved_domain_fallback falsy_def)
  then have "entry_of env k' = None" if "has_prefix (key_prefix k) k'" for k'
    using that entry_of_no_domain [of env k'] by (simp add: has_prefix_def)
  then have "\<forall>k'. List.find (has_prefix (key_prefix k)) (map fst env) = Some k' \<longrightarrow>
      entry_of env k' = None"
    by (auto simp: find_Some_iff)
  from build_drop_prefix [OF this]
  show "build_sensitive_data env =
      build_over env
        (filter (\<lambda>k'. \<not> (is_identity_key k' \<and> key_prefix k' = key_prefix k)) (map fst env))"
    by (simp add: has_prefix_def)
  fix c seen
  assume "key_prefix k \<notin> seen"
  then show "loop_body env (c, seen) k = Inr (c, insert (key_prefix k) seen)"
    using id nodom by (simp add: loop_body_mark_only entry_of_no_domain)
qed

theorem build_sensitive_data_domain_override_and_unknown_witness:
  "build_sensitive_data
     [(''GITHUB_USER'', ''octocat''), (''GITHUB_PASS'', ''s3cret''),
      (''GITHUB_DOMAIN'', ''https://git.example.org'')] =
   Inr [(''https://git.example.org'', [(''github_user'', ''octocat''), (''github_pass'', ''s3cret'')])] \<and>
   build_sensitive_data [(''MYAPP_USER'', ''admin''), (''MYAPP_PASS'', ''hunter2'')] = Inr [] \<and>
   loop_body [(''MYAPP_USER'', ''admin''), (''MYAPP_PASS'', ''hunter2'')] ([], {}) ''MYAPP_USER'' =
     Inr ([], {''MYAPP''})"
proof -
  let ?e1 = "[(''GITHUB_USER'', ''octocat''), (''GITHUB_PASS'', ''s3cret''),
              (''GITHUB_DOMAIN'', ''https://git.example.org'')]"
  let ?e2 = "[(''MYAPP_USER'', ''admin''), (''MYAPP_PASS'', ''hunter2'')]"
  have id: "is_identity_key ''GITHUB_USER''" "is_identity_key ''MYAPP_USER''"
    "\<not> is_identity_key ''GITHUB_PASS''" "\<not> is_identity_key ''GITHUB_DOMAIN''"
    "\<not> is_identity_key ''MYAPP_PASS''"
    by (simp_all add: is_identity_key_def endswith_def)
  have pre: "key_prefix ''GITHUB_USER'' = ''GITHUB''" "key_prefix ''MYAPP_USER'' = ''MYAPP''"
    by (simp_all add: key_prefix_def rsplit1_def)
  have low: "lower ''GITHUB'' = ''github''"
    by (simp add: lower_def lower_char_def is_ascii_def)
  have k1: "map fst ?e1 = [] @ ''GITHUB_USER'' # [''GITHUB_PASS'', ''GITHUB_DOMAIN'']" by simp
  have v1: "getenv ?e1 ''GITHUB_USER'' = Some ''octocat''"
    "getenv ?e1 (key_prefix ''GITHUB_USER'' @ ''_PASS'') = Some ''s3cret''"
    "getenv ?e1 (key_prefix ''GITHUB_USER'' @ ''_DOMAIN'') = Some ''https://git.example.org''"
    by (simp_all add: getenv_def pre)
  have k2: "map fst ?e2 = [] @ ''MYAPP_USER'' # [''MYAPP_PASS'']" by simp
  have v2: "getenv ?e2 ''MYAPP_USER'' = Some ''admin''"
    "getenv ?e2 (key_prefix ''MYAPP_USER'' @ ''_PASS'') = Some ''hunter2''"
    "getenv ?e2 (key_prefix ''MYAPP_USER'' @ ''_DOMAIN'') = None"
    "DOMAIN_MAP (key_prefix ''MYAPP_USER'') = None"
    by (simp_all add: getenv_def pre DOMAIN_MAP_def)
  have T1: "\<exists>c. build_sensitive_data ?e1 = Inr c \<and>
      map_of c ''https://git.example.org'' =
        Some [(lower (key_prefix ''GITHUB_USER'') @ ''_user'', ''octocat''),
              (lower (key_prefix ''GITHUB_USER'') @ ''_pass'', ''s3cret'')]"
    by (rule build_sensitive_data_domain_override_and_unknown
          [OF k1 id(1) _ v1(1) _ v1(2), THEN conjunct1, THEN spec, THEN mp, THEN mp,
           THEN conjunct2, THEN mp])
       (simp_all add: v1 id)
  have T2: "build_sensitive_data ?e2 =
      build_over ?e2
        (filter (\<lambda>k'. \<not> (is_identity_key k' \<and> key_prefix k' = key_prefix ''MYAPP_USER''))
           (map fst ?e2)) \<and>
      (\<forall>c seen. key_prefix ''MYAPP_USER'' \<notin> seen \<longrightarrow>
         loop_body ?e2 (c, seen) ''MYAPP_USER'' = Inr (c, insert (key_prefix ''MYAPP_USER'') seen))"
    by (rule build_sensitive_data_domain_override_and_unknown
          [OF k2 id(2) _ v2(1) _ v2(2), THEN conjunct2, THEN mp, THEN mp])
       (simp_all add: v2)
  have r1: "build_sensitive_data ?e1 =
      Inr [(''https://git.example.org'', [(''github_user'', ''octocat''), (''github_pass'', ''s3cret'')])]"
    by (simp add: build_sensitive_data_def build_over_def loop_body_def endswith_def rsplit1_def
        index0_def getenv_def falsy_def py_or_def DOMAIN_MAP_def lower_def lower_char_def is_ascii_def)
  have r2: "build_over ?e2 [''MYAPP_PASS''] = Inr []"
    by (simp add: build_over_foldl step_def id)
  from T1 T2 r1 r2 show ?thesis by (simp add: id pre low)
qed

text \<open>
  C4 as stated fails when \<^verbatim>\<open>P_DOMAIN\<close> is set to the empty string: the value of
  \<^verbatim>\<open>GITHUB_DOMAIN\<close> is set, and the entry is stored under the domain of the static
  table, not under the value of the variable.
\<close>

theorem build_sensitive_data_empty_domain_override_counterexample:
  "getenv [(''GITHUB_USER'', ''octocat''), (''GITHUB_PASS'', ''s3cret''), (''GITHUB_DOMAIN'', '''')]
     ''GITHUB_USER'' = Some ''octocat'' \<and>
   getenv [(''GITHUB_USER'', ''octocat''), (''GITHUB_PASS'', ''s3cret''), (''GITHUB_DOMAIN'', '''')]
     ''GITHUB_PASS'' = Some ''s3cret'' \<and>
   getenv [(''GITHUB_USER'', ''octocat''), (''GITHUB_PASS'', ''s3cret''), (''GITHUB_DOMAIN'', '''')]
     ''GITHUB_DOMAIN'' = Some '''' \<and>
   build_sensitive_data
     [(''GITHUB_USER'', ''octocat''), (''GITHUB_PASS'', ''s3cret''), (''GITHUB_DOMAIN'', '''')] =
   Inr [(''https://*.github.com'', [(''github_user'', ''octocat''), (''github_pass'', ''s3cret'')])]"
  by (simp add: build_sensitive_data_def build_over_def loop_body_def endswith_def rsplit1_def
      index0_def getenv_def falsy_def py_or_def DOMAIN_MAP_def lower_def lower_char_def is_ascii_def)

text \<open>
  C10. When \<^verbatim>\<open>P_DOMAIN\<close> is present with the empty string as its value, the override
  counts as absent: the domain of \<open>P\<close> is the entry of the static table, the result is
  the one of the environment without the \<^verbatim>\<open>P_DOMAIN\<close> variable, and an iteration on
  a key of a prefix \<open>P\<close> that has an identity value and a password stores the entry under
  the table's domain, storing nothing exactly when the table has no entry for \<open>P\<close>.
  For the result of the function: when the table maps \<open>P\<close> to \<open>D\<close>, the result holds the
  placeholders of \<open>P\<close> under \<open>D\<close> (for the first identity key of \<open>P\<close>, with a value and a
  password, no other prefix that resolves to \<open>D\<close> being enumerated later); when the table
  has no entry for \<open>P\<close>, the result is the one obtained when the identity keys of \<open>P\<close>
  are not enumerated at all.
\<close>

theorem build_sensitive_data_empty_domain_override_is_absent:
  assumes empty: "getenv env (P @ ''_DOMAIN'') = Some []"
  shows "resolved_domain env P = DOMAIN_MAP P \<and>
         build_sensitive_data env =
           build_sensitive_data (filter (\<lambda>kv. fst kv \<noteq> P @ ''_DOMAIN'') env) \<and>
         (\<forall>k c seen u p.
            is_identity_key k \<longrightarrow> key_prefix k = P \<longrightarrow> P \<notin> seen \<longrightarrow>
            getenv env k = Some u \<longrightarrow> u \<noteq> [] \<longrightarrow>
            getenv env (P @ ''_PASS'') = Some p \<longrightarrow> p \<noteq> [] \<longrightarrow>
            loop_body env (c, seen) k =
              Inr (case DOMAIN_MAP P of
                     None \<Rightarrow> c
                   | Some D \<Rightarrow> AList.update D [(lower P @ ''_user'', u), (lower P @ ''_pass'', p)] c,
                   insert P seen)) \<and>
         (\<forall>ks1 k ks2 u p D.
            map fst env = ks1 @ k # ks2 \<longrightarrow> is_identity_key k \<longrightarrow> key_prefix k = P \<longrightarrow>
            (\<forall>k'\<in>set ks1. is_identity_key k' \<longrightarrow> key_prefix k' \<noteq> P) \<longrightarrow>
            getenv env k = Some u \<longrightarrow> u \<noteq> [] \<longrightarrow>
            getenv env (P @ ''_PASS'') = Some p \<longrightarrow> p \<noteq> [] \<longrightarrow>
            DOMAIN_MAP P = Some D \<longrightarrow>
            (\<forall>k'\<in>set ks2. is_identity_key k' \<longrightarrow>
               key_prefix k' = P \<or> resolved_domain env (key_prefix k') \<noteq> Some D) \<longrightarrow>
            (\<exists>c. build_sensitive_data env = Inr c \<and>
               map_of c D = Some [(lower P @ ''_user'', u), (lower P @ ''_pass'', p)])) \<and>
         (DOMAIN_MAP P = None \<longrightarrow>
            build_sensitive_data env =
              build_over env
                (filter (\<lambda>k. \<not> (is_identity_key k \<and> key_prefix k = P)) (map fst env)))"
proof (intro conjI allI impI)
  show dom: "resolved_domain env P = DOMAIN_MAP P"
    using empty by (simp add: resolved_domain_fallback falsy_def)
  show "build_sensitive_data env =
      build_sensitive_data (filter (\<lambda>kv. fst kv \<noteq> P @ ''_DOMAIN'') env)"
    using build_filter_empty_DOMAIN [OF empty] by simp
  {
    fix k c seen u p
    assume k: "is_identity_key k" "key_prefix k = P" "P \<notin> seen"
      and v: "getenv env k = Some u" "u \<noteq> []" "getenv env (P @ ''_PASS'') = Some p" "p \<noteq> []"
    show "loop_body env (c, seen) k =
        Inr (case DOMAIN_MAP P of
               None \<Rightarrow> c
             | Some D \<Rightarrow> AList.update D [(lower P @ ''_user'', u), (lower P @ ''_pass'', p)] c,
             insert P seen)"
    proof (cases "DOMAIN_MAP P")
      case None
      then have "entry_of env k = None"
        using dom k(2) by (simp add: entry_of_no_domain falsy_def)
      with k None show ?thesis by (simp add: loop_body_mark_only)
    next
      case (Some D)
      then have "entry_of env k = Some (D, [(lower P @ ''_user'', u), (lower P @ ''_pass'', p)])"
        using entry_of_Some [of env k u p D] dom k(2) v DOMAIN_MAP_nonempty [OF Some] by simp
      with k Some show ?thesis by (simp add: loop_body_step step_write)
    qed
  }
  {
    fix ks1 ks2 :: "string list" and k u p D :: string
    let ?sub = "[(lower P @ ''_user'', u), (lower P @ ''_pass'', p)]"
    assume keys: "map fst env = ks1 @ k # ks2"
      and k: "is_identity_key k" "key_prefix k = P"
      and first: "\<forall>k'\<in>set ks1. is_identity_key k' \<longrightarrow> key_prefix k' \<noteq> P"
      and v: "getenv env k = Some u" "u \<noteq> []" "getenv env (P @ ''_PASS'') = Some p" "p \<noteq> []"
      and tab: "DOMAIN_MAP P = Some D"
      and later: "\<forall>k'\<in>set ks2. is_identity_key k' \<longrightarrow>
        key_prefix k' = P \<or> resolved_domain env (key_prefix k') \<noteq> Some D"
    have entry: "entry_of env k = Some (D, ?sub)"
      using entry_of_Some [of env k u p D] dom k(2) v tab DOMAIN_MAP_nonempty [OF tab] by simp
    have first': "\<forall>k'\<in>set ks1. is_identity_key k' \<longrightarrow> key_prefix k' \<noteq> key_prefix k"
      using first k(2) by simp
    have "map_of (fst (foldl (step env) ([], {}) (ks1 @ k # ks2))) D = Some ?sub"
      by (rule last_write [OF k(1) first' entry]) (use later k in auto)
    then show "\<exists>c. build_sensitive_data env = Inr c \<and> map_of c D = Some ?sub"
      by (simp add: build_sensitive_data_foldl keys)
  }
  assume "DOMAIN_MAP P = None"
  then have "entry_of env k = None" if "has_prefix P k" for k
    using that dom entry_of_no_domain [of env k] by (simp add: has_prefix_def falsy_def)
  then have "\<forall>k. List.find (has_prefix P) (map fst env) = Some k \<longrightarrow> entry_of env k = None"
    by (auto simp: find_Some_iff)
  from build_drop_prefix [OF this]
  show "build_sensitive_data env =
      build_over env (filter (\<lambda>k. \<not> (is_identity_key k \<and> key_prefix k = P)) (map fst env))"
    by (simp add: has_prefix_def)
qed

theorem build_sensitive_data_empty_domain_override_is_absent_witness:
  "build_sensitive_data
     [(''GITHUB_USER'', ''octocat''), (''GITHUB_PASS'', ''s3cret''),
      (''GITLAB_USER'', ''dev''), (''GITLAB_DOMAIN'', []), (''GITLAB_PASS'', ''pw'')] =
   build_sensitive_data
     [(''GITHUB_USER'', ''octocat''), (''GITHUB_PASS'', ''s3cret''),
      (''GITLAB_USER'', ''dev''), (''GITLAB_PASS'', ''pw'')] \<and>
   (\<exists>c. build_sensitive_data
           [(''GITHUB_USER'', ''octocat''), (''GITHUB_PASS'', ''s3cret''),
            (''GITLAB_USER'', ''dev''), (''GITLAB_DOMAIN'', []), (''GITLAB_PASS'', ''pw'')] = Inr c \<and>
         map_of c ''https://*.gitlab.com'' = Some [(''gitlab_user'', ''dev''), (''gitlab_pass'', ''pw'')]) \<and>
   build_sensitive_data
     [(''GITHUB_USER'', ''octocat''), (''GITHUB_PASS'', ''s3cret''),
      (''GITLAB_USER'', ''dev''), (''GITLAB_DOMAIN'', []), (''GITLAB_PASS'', ''pw'')] =
   Inr [(''https://*.github.com'', [(''github_user'', ''octocat''), (''github_pass'', ''s3cret'')]),
        (''https://*.gitlab.com'', [(''gitlab_user'', ''dev''), (''gitlab_pass'', ''pw'')])] \<and>
   resolved_domain
     [(''GITHUB_USER'', ''octocat''), (''GITHUB_PASS'', ''s3cret''),
      (''GITLAB_USER'', ''dev''), (''GITLAB_DOMAIN'', []), (''GITLAB_PASS'', ''pw'')]
     ''GITLAB'' = Some ''https://*.gitlab.com'' \<and>
   loop_body
     [(''GITHUB_USER'', ''octocat''), (''GITHUB_PASS'', ''s3cret''),
      (''GITLAB_USER'', ''dev''), (''GITLAB_DOMAIN'', []), (''GITLAB_PASS'', ''pw'')]
     ([], {}) ''GITLAB_USER'' =
   Inr ([(''https://*.gitlab.com'', [(''gitlab_user'', ''dev''), (''gitlab_pass'', ''pw'')])],
        {''GITLAB''}) \<and>
   build_sensitive_data
     [(''MYAPP_USER'', ''admin''), (''MYAPP_DOMAIN'', []), (''MYAPP_PASS'', ''hunter2'')] =
   build_over
     [(''MYAPP_USER'', ''admin''), (''MYAPP_DOMAIN'', []), (''MYAPP_PASS'', ''hunter2'')]
     [''MYAPP_DOMAIN'', ''MYAPP_PASS''] \<and>
   build_sensitive_data
     [(''MYAPP_USER'', ''admin''), (''MYAPP_DOMAIN'', []), (''MYAPP_PASS'', ''hunter2'')] = Inr [] \<and>
   loop_body [(''MYAPP_USER'', ''admin''), (''MYAPP_DOMAIN'', []), (''MYAPP_PASS'', ''hunter2'')]
     ([], {}) ''MYAPP_USER'' = Inr ([], {''MYAPP''})"
proof -
  let ?e1 = "[(''GITHUB_USER'', ''octocat''), (''GITHUB_PASS'', ''s3cret''),
              (''GITLAB_USER'', ''dev''), (''GITLAB_DOMAIN'', []), (''GITLAB_PASS'', ''pw'')]"
  let ?e2 = "[(''MYAPP_USER'', ''admin''), (''MYAPP_DOMAIN'', []), (''MYAPP_PASS'', ''hunter2'')]"
  have v1: "getenv ?e1 (''GITLAB'' @ ''_DOMAIN'') = Some []"
    by (simp add: getenv_def)
  have v2: "getenv ?e2 (''MYAPP'' @ ''_DOMAIN'') = Some []"
    by (simp add: getenv_def)
  note T1 = build_sensitive_data_empty_domain_override_is_absent [OF v1]
  note T2 = build_sensitive_data_empty_domain_override_is_absent [OF v2]
  have id: "is_identity_key ''GITLAB_USER''" "is_identity_key ''MYAPP_USER''"
    "is_identity_key ''GITHUB_USER''" "\<not> is_identity_key ''GITHUB_PASS''"
    "\<not> is_identity_key ''GITLAB_DOMAIN''" "\<not> is_identity_key ''GITLAB_PASS''"
    "\<not> is_identity_key ''MYAPP_DOMAIN''" "\<not> is_identity_key ''MYAPP_PASS''"
    by (simp_all add: is_identity_key_def endswith_def)
  have pre: "key_prefix ''GITLAB_USER'' = ''GITLAB''" "key_prefix ''MYAPP_USER'' = ''MYAPP''"
    "key_prefix ''GITHUB_USER'' = ''GITHUB''"
    by (simp_all add: key_prefix_def rsplit1_def)
  have tab: "DOMAIN_MAP ''GITLAB'' = Some ''https://*.gitlab.com''" "DOMAIN_MAP ''MYAPP'' = None"
    by (simp_all add: DOMAIN_MAP_def)
  have low: "lower ''GITLAB'' = ''gitlab''"
    by (simp add: lower_def lower_char_def is_ascii_def)
  have keys: "map fst ?e1 =
      [''GITHUB_USER'', ''GITHUB_PASS''] @ ''GITLAB_USER'' # [''GITLAB_DOMAIN'', ''GITLAB_PASS'']"
    by simp
  have val: "getenv ?e1 ''GITLAB_USER'' = Some ''dev''" "getenv ?e1 (''GITLAB'' @ ''_PASS'') = Some ''pw''"
    by (simp_all add: getenv_def)
  have 1: "build_sensitive_data ?e1 =
      build_sensitive_data [(''GITHUB_USER'', ''octocat''), (''GITHUB_PASS'', ''s3cret''),
        (''GITLAB_USER'', ''dev''), (''GITLAB_PASS'', ''pw'')]"
    using T1 by simp
  have 2: "resolved_domain ?e1 ''GITLAB'' = Some ''https://*.gitlab.com''"
    using T1 by (simp add: DOMAIN_MAP_def)
  have 3: "\<exists>c. build_sensitive_data ?e1 = Inr c \<and>
      map_of c ''https://*.gitlab.com'' =
        Some [(lower ''GITLAB'' @ ''_user'', ''dev''), (lower ''GITLAB'' @ ''_pass'', ''pw'')]"
    by (rule T1 [THEN conjunct2, THEN conjunct2, THEN conjunct2, THEN conjunct1, rule_format,
          OF keys id(1) pre(1) _ val(1) _ val(2) _ tab(1)])
       (auto simp: id pre)
  have 4: "build_sensitive_data ?e1 =
      Inr [(''https://*.github.com'', [(''github_user'', ''octocat''), (''github_pass'', ''s3cret'')]),
           (''https://*.gitlab.com'', [(''gitlab_user'', ''dev''), (''gitlab_pass'', ''pw'')])]"
    by (simp add: build_sensitive_data_def build_over_def loop_body_def endswith_def rsplit1_def
        index0_def getenv_def falsy_def py_or_def DOMAIN_MAP_def lower_def lower_char_def
        is_ascii_def)
  have 5: "loop_body ?e1 ([], {}) ''GITLAB_USER'' =
      Inr ([(''https://*.gitlab.com'', [(''gitlab_user'', ''dev''), (''gitlab_pass'', ''pw'')])],
           {''GITLAB''})"
    using T1 [THEN conjunct2, THEN conjunct2, THEN conjunct1, rule_format,
        where k = "''GITLAB_USER''" and seen = "{}" and u = "''dev''" and p = "''pw''" and c = "[]"]
    by (simp add: id pre tab low getenv_def)
  have 6: "build_sensitive_data ?e2 = build_over ?e2 [''MYAPP_DOMAIN'', ''MYAPP_PASS'']"
    using T2 [THEN conjunct2, THEN conjunct2, THEN conjunct2, THEN conjunct2] tab(2)
    by (simp add: id pre)
  have 7: "build_over ?e2 [''MYAPP_DOMAIN'', ''MYAPP_PASS''] = Inr []"
    by (simp add: build_over_foldl step_def id)
  have 8: "loop_body ?e2 ([], {}) ''MYAPP_USER'' = Inr ([], {''MYAPP''})"
    using T2 [THEN conjunct2, THEN conjunct2, THEN conjunct1, rule_format,
        where k = "''MYAPP_USER''" and seen = "{}" and u = "''admin''" and p = "''hunter2''"
          and c = "[]"]
    by (simp add: id pre tab getenv_def)
  from 1 2 3 4 5 6 7 8 show ?thesis by (simp add: low)
qed

section \<open>Properties of the profile store\<close>

lemma split_sep_no_sep: "c \<notin> set s \<Longrightarrow> split_sep c s = [s]"
  by (induction s) auto

lemma parse_parts_component:
  assumes "s \<noteq> []" "CHR ''/'' \<notin> set s" "s \<noteq> ''.''"
  shows "parse_parts s = \<lparr>root = [], parts = [s]\<rparr>"
proof -
  have "hd s \<noteq> CHR ''/''" using assms(1,2) by (cases s) auto
  then have "splitroot s = ([], s)" by (simp add: splitroot_def)
  then show ?thesis using assms by (simp add: parse_parts_def split_sep_no_sep)
qed

lemma truediv_component:
  assumes "s \<noteq> []" "CHR ''/'' \<notin> set s" "s \<noteq> ''.''"
  shows "truediv p s = \<lparr>root = root p, parts = parts p @ [s]\<rparr>"
  by (simp add: truediv_def parse_parts_component [OF assms])

lemma PROFILES_DIR_parts:
  "PROFILES_DIR home = \<lparr>root = root home, parts = parts home @ [''.browser-use-profiles'']\<rparr>"
  unfolding PROFILES_DIR_def by (rule truediv_component) simp_all

lemma get_profile_path_component:
  assumes "s \<noteq> []" "CHR ''/'' \<notin> set s" "s \<noteq> ''.''"
  shows "get_profile_path home s =
         \<lparr>root = root home, parts = parts home @ [''.browser-use-profiles'', s]\<rparr>"
proof -
  have "get_profile_path home s = truediv (PROFILES_DIR home) s"
    by (simp add: get_profile_path_def PROFILES_DIR_def)
  then show ?thesis by (simp add: truediv_component [OF assms] PROFILES_DIR_parts)
qed













lemma expanduser_tilde_HOME:
  "getenv env1 ''HOME'' = getenv env2 ''HOME'' \<Longrightarrow>
   (getenv env1 ''HOME'' = None \<longrightarrow> pw1 = pw2) \<Longrightarrow>
   expanduser_tilde env1 pw1 = expanduser_tilde env2 pw2"
  by (auto simp: expanduser_tilde_def split: option.splits)

lemma browser_with_profile_skip_iff:
  "(\<exists>msg. browser_with_profile True fs home profile_name = Inr (Skipped msg)) \<longleftrightarrow>
   path_exists fs (get_profile_path home profile_name) = Inr False"
  by (auto simp: browser_with_profile_def Let_def split: sum.splits)

section \<open>Claims about the profile store\<close>

text \<open>
  C8, as amended. \<^verbatim>\<open>get_profile_path\<close> writes nothing, and its result is determined by
  the name and by the home directory that \<^verbatim>\<open>Path.home()\<close> resolves in the process state
  of the call: two calls with the same name return the same result when the variable
  \<^verbatim>\<open>HOME\<close> is the same in both states and, \<^verbatim>\<open>HOME\<close> being absent, the entry of the
  user database is the same. For a name that is a single path component, that is
  non-empty, without a slash and different from \<^verbatim>\<open>'.'\<close>, the path is the home directory
  extended by \<^verbatim>\<open>.browser-use-profiles\<close> and the name, and its final component is the
  name.
\<close>

theorem get_profile_path_final_component:
  "(getenv env1 ''HOME'' = getenv env2 ''HOME'' \<longrightarrow>
    (getenv env1 ''HOME'' = None \<longrightarrow> pw1 = pw2) \<longrightarrow>
      get_profile_path_at env1 pw1 profile_name = get_profile_path_at env2 pw2 profile_name) \<and>
   (\<forall>home. Path_home env pw = Inr home \<longrightarrow>
      profile_name \<noteq> [] \<longrightarrow> CHR ''/'' \<notin> set profile_name \<longrightarrow> profile_name \<noteq> ''.'' \<longrightarrow>
      get_profile_path_at env pw profile_name =
        Inr \<lparr>root = root home, parts = parts home @ [''.browser-use-profiles'', profile_name]\<rparr> \<and>
      path_name (get_profile_path home profile_name) = profile_name)"
proof (intro conjI allI impI)
  assume "getenv env1 ''HOME'' = getenv env2 ''HOME''" "getenv env1 ''HOME'' = None \<longrightarrow> pw1 = pw2"
  then have "expanduser_tilde env1 pw1 = expanduser_tilde env2 pw2"
    by (rule expanduser_tilde_HOME)
  then show "get_profile_path_at env1 pw1 profile_name = get_profile_path_at env2 pw2 profile_name"
    by (simp add: get_profile_path_at_def Path_home_def)
next
  fix home
  assume home: "Path_home env pw = Inr home"
    and name: "profile_name \<noteq> []" "CHR ''/'' \<notin> set profile_name" "profile_name \<noteq> ''.''"
  show "get_profile_path_at env pw profile_name =
      Inr \<lparr>root = root home, parts = parts home @ [''.browser-use-profiles'', profile_name]\<rparr>"
    by (simp add: get_profile_path_at_def home get_profile_path_component [OF name])
  show "path_name (get_profile_path home profile_name) = profile_name"
    by (simp add: get_profile_path_component [OF name] path_name_def)
qed

theorem get_profile_path_final_component_witness:
  "get_profile_path_at [(''HOME'', ''/home/dev''), (''LANG'', ''C'')] None ''github-2fa'' =
     get_profile_path_at [(''HOME'', ''/home/dev'')] (Some ''/root'') ''github-2fa'' \<and>
   get_profile_path_at [(''HOME'', ''/home/dev'')] None ''github-2fa'' =
     Inr \<lparr>root = ''/'', parts = [''home'', ''dev'', ''.browser-use-profiles'', ''github-2fa'']\<rparr> \<and>
   path_name (get_profile_path \<lparr>root = ''/'', parts = [''home'', ''dev'']\<rparr> ''github-2fa'') =
     ''github-2fa''"
proof -
  have h: "Path_home [(''HOME'', ''/home/dev'')] None = Inr \<lparr>root = ''/'', parts = [''home'', ''dev'']\<rparr>"
    by (simp add: Path_home_def expanduser_tilde_def getenv_def rstrip_sep_def parse_parts_def
        splitroot_def)
  have e: "getenv [(''HOME'', ''/home/dev''), (''LANG'', ''C'')] ''HOME'' =
      getenv [(''HOME'', ''/home/dev'')] ''HOME''"
    "getenv [(''HOME'', ''/home/dev''), (''LANG'', ''C'')] ''HOME'' \<noteq> None"
    by (simp_all add: getenv_def)
  have 1: "get_profile_path_at [(''HOME'', ''/home/dev''), (''LANG'', ''C'')] None ''github-2fa'' =
     get_profile_path_at [(''HOME'', ''/home/dev'')] (Some ''/root'') ''github-2fa''"
    using get_profile_path_final_component
      [of "[(''HOME'', ''/home/dev''), (''LANG'', ''C'')]" "[(''HOME'', ''/home/dev'')]"
          None "Some ''/root''" "''github-2fa''", THEN conjunct1] e
    by blast
  have 2: "get_profile_path_at [(''HOME'', ''/home/dev'')] None ''github-2fa'' =
        Inr \<lparr>root = root \<lparr>root = ''/'', parts = [''home'', ''dev'']\<rparr>,
             parts = parts \<lparr>root = ''/'', parts = [''home'', ''dev'']\<rparr> @
               [''.browser-use-profiles'', ''github-2fa'']\<rparr> \<and>
      path_name (get_profile_path \<lparr>root = ''/'', parts = [''home'', ''dev'']\<rparr> ''github-2fa'') =
        ''github-2fa''"
    by (rule get_profile_path_final_component
          [where env = "[(''HOME'', ''/home/dev'')]" and pw = None,
           THEN conjunct2, THEN spec, THEN mp, THEN mp, THEN mp, THEN mp, OF h])
       simp_all
  from 1 2 show ?thesis by simp
qed

text \<open>
  C8 as stated fails in two ways. The final component is not the name when the name is
  not a single component: it is \<^verbatim>\<open>'github'\<close> for \<^verbatim>\<open>'team/github'\<close> and
  \<^verbatim>\<open>'.browser-use-profiles'\<close> for the empty name, and a name with a leading slash
  replaces the whole path. And the function reads the process state: the same name
  gives different paths under two values of \<^verbatim>\<open>HOME\<close>, the path comes from the user
  database when \<^verbatim>\<open>HOME\<close> is absent, and the call raises \<^verbatim>\<open>RuntimeError\<close> when neither
  gives a home directory.
\<close>

theorem get_profile_path_final_component_counterexample:
  "get_profile_path_at [(''HOME'', ''/home/dev'')] None ''team/github'' =
     Inr \<lparr>root = ''/'', parts = [''home'', ''dev'', ''.browser-use-profiles'', ''team'', ''github'']\<rparr> \<and>
   path_name (get_profile_path \<lparr>root = ''/'', parts = [''home'', ''dev'']\<rparr> ''team/github'') =
     ''github'' \<and>
   path_name (get_profile_path \<lparr>root = ''/'', parts = [''home'', ''dev'']\<rparr> []) =
     ''.browser-use-profiles'' \<and>
   get_profile_path_at [(''HOME'', ''/home/dev'')] None ''/etc'' =
     Inr \<lparr>root = ''/'', parts = [''etc'']\<rparr> \<and>
   get_profile_path_at [(''HOME'', ''/home/dev'')] None ''github-2fa'' =
     Inr \<lparr>root = ''/'', parts = [''home'', ''dev'', ''.browser-use-profiles'', ''github-2fa'']\<rparr> \<and>
   get_profile_path_at [(''HOME'', ''/srv/ci'')] None ''github-2fa'' =
     Inr \<lparr>root = ''/'', parts = [''srv'', ''ci'', ''.browser-use-profiles'', ''github-2fa'']\<rparr> \<and>
   get_profile_path_at [] (Some ''/root'') ''github-2fa'' =
     Inr \<lparr>root = ''/'', parts = [''root'', ''.browser-use-profiles'', ''github-2fa'']\<rparr> \<and>
   get_profile_path_at [] None ''github-2fa'' = Inl RuntimeError"
  by (simp add: get_profile_path_at_def Path_home_def expanduser_tilde_def getenv_def rstrip_sep_def
      get_profile_path_def truediv_def parse_parts_def splitroot_def path_name_def)

text \<open>
  C3. The fixture skips exactly when \<^verbatim>\<open>exists\<close> answers \<^verbatim>\<open>False\<close> for the path of the
  profile (\<open>browser_with_profile_skip_iff\<close>), which is not the absence of the profile's
  directory: with a regular file \<^verbatim>\<open>notes.txt\<close> under the profile root, the path of the
  profile \<^verbatim>\<open>notes.txt\<close> is not a directory and \<^verbatim>\<open>list_profiles\<close> does not list it, and
  the fixture does not skip but makes a browser on that path.
\<close>

theorem browser_with_profile_regular_file_not_skipped:
  "path_is_dir
     (Dir [(''home'', Dir [(''dev'', Dir [(''.browser-use-profiles'',
        Dir [(''github-2fa'', Dir []), (''notes.txt'', File)])])])])
     (get_profile_path \<lparr>root = ''/'', parts = [''home'', ''dev'']\<rparr> ''notes.txt'') = Inr False \<and>
   browser_with_profile True
     (Dir [(''home'', Dir [(''dev'', Dir [(''.browser-use-profiles'',
        Dir [(''github-2fa'', Dir []), (''notes.txt'', File)])])])])
     \<lparr>root = ''/'', parts = [''home'', ''dev'']\<rparr> ''notes.txt'' =
   Inr (Launched \<lparr>headless = False,
                   user_data_dir = ''/home/dev/.browser-use-profiles/notes.txt''\<rparr>) \<and>
   list_profiles
     (Dir [(''home'', Dir [(''dev'', Dir [(''.browser-use-profiles'',
        Dir [(''github-2fa'', Dir []), (''notes.txt'', File)])])])])
     \<lparr>root = ''/'', parts = [''home'', ''dev'']\<rparr> =
   Inr [''Profiles in /home/dev/.browser-use-profiles:'' @ [CHR 0x0A], ''  - github-2fa'']"
  by (simp add: browser_with_profile_def get_profile_path_def list_profiles_def PROFILES_DIR_def
      truediv_def parse_parts_def splitroot_def path_exists_def path_iterdir_def path_is_dir_def
      path_stat_def path_str_def path_name_def cparts_def NAME_MAX_def PATH_MAX_def)




end
